theory Spec2Isabelle
  imports
    Main
    "HOL-Library.Sublist"
    "HOL-Library.Char_ord"
    "HOL-Library.List_Lexorder"
    "HOL-Library.Multiset"
begin

section \<open>tabref: numbering the citations of a deluxetable\<close>

text \<open>
  A shallow embedding of \<^verbatim>\<open>tabref.py\<close>. The program is Python 2: a \<^verbatim>\<open>str\<close> is a
  byte string, modelled as \<^typ>\<open>string\<close>; an \<^verbatim>\<open>int\<close> is unbounded, modelled as
  \<^typ>\<open>int\<close>. Every exception the code can raise is a value of \<open>py_error\<close>.
\<close>

subsection \<open>Python built-ins used by the program\<close>

datatype py_error = ValueError | IndexError | KeyError | TypeError | SystemExit

abbreviation bsl :: char where
  "bsl \<equiv> CHR 0x5C"

abbreviation nl :: char where
  "nl \<equiv> CHR 0x0A"

text \<open>\<^verbatim>\<open>str.rstrip()\<close> and \<^verbatim>\<open>str.lstrip()\<close> without argument strip the
  bytes space, tab, line feed, vertical tab, form feed and carriage return.\<close>

definition whitespace :: string where
  "whitespace = [CHR '' '', CHR 0x09, CHR 0x0A, CHR 0x0B, CHR 0x0C, CHR 0x0D]"

definition rstrip_chars :: "string \<Rightarrow> string \<Rightarrow> string" where
  "rstrip_chars cs s = rev (dropWhile (\<lambda>c. c \<in> set cs) (rev s))"

definition lstrip_chars :: "string \<Rightarrow> string \<Rightarrow> string" where
  "lstrip_chars cs s = dropWhile (\<lambda>c. c \<in> set cs) s"

definition rstrip :: "string \<Rightarrow> string" where
  "rstrip s = rstrip_chars whitespace s"

definition lstrip :: "string \<Rightarrow> string" where
  "lstrip s = lstrip_chars whitespace s"

text \<open>\<^verbatim>\<open>s.split(c)\<close> for a separator of one character. The result is never the
  empty list, so the first branch of the \<open>case\<close> is never taken.\<close>

fun split_on :: "char \<Rightarrow> string \<Rightarrow> string list" where
  "split_on c [] = [[]]"
| "split_on c (x # xs) =
     (if x = c then [] # split_on c xs
      else (case split_on c xs of [] \<Rightarrow> [[x]] | w # ws \<Rightarrow> (x # w) # ws))"

text \<open>\<^verbatim>\<open>sep.join(xs)\<close>.\<close>

fun join :: "string \<Rightarrow> string list \<Rightarrow> string" where
  "join sep [] = []"
| "join sep [x] = x"
| "join sep (x # y # ys) = x @ sep @ join sep (y # ys)"

text \<open>\<^verbatim>\<open>s.replace(old, new)\<close>: every non-overlapping occurrence of \<open>old\<close>, found
  from left to right, becomes \<open>new\<close>; an empty \<open>old\<close> matches before every
  character and at the end.\<close>

fun replace_scan :: "string \<Rightarrow> string \<Rightarrow> string \<Rightarrow> string" where
  "replace_scan old new [] = []"
| "replace_scan old new (c # cs) =
     (if take (length old) (c # cs) = old
      then new @ replace_scan old new (drop (length old - 1) cs)
      else c # replace_scan old new cs)"

definition replace :: "string \<Rightarrow> string \<Rightarrow> string \<Rightarrow> string" where
  "replace old new s =
     (if old = [] then new @ concat (map (\<lambda>c. c # new) s)
      else replace_scan old new s)"

text \<open>\<^verbatim>\<open>xs.index(v)\<close>: the first position of \<open>v\<close>, \<^verbatim>\<open>ValueError\<close> when absent.\<close>

fun index_of :: "'a \<Rightarrow> 'a list \<Rightarrow> py_error + nat" where
  "index_of v [] = Inl ValueError"
| "index_of v (x # xs) =
     (if x = v then Inr 0
      else (case index_of v xs of Inl e \<Rightarrow> Inl e | Inr n \<Rightarrow> Inr (Suc n)))"

text \<open>\<^verbatim>\<open>xs[i]\<close>: a negative index counts from the end, \<^verbatim>\<open>IndexError\<close> out of
  range. The result is the position read.\<close>

definition py_index :: "'a list \<Rightarrow> int \<Rightarrow> py_error + nat" where
  "py_index xs i =
     (let n = int (length xs); j = (if i < 0 then n + i else i)
      in if 0 \<le> j \<and> j < n then Inr (nat j) else Inl IndexError)"

text \<open>\<^verbatim>\<open>xs[a:b]\<close> for indices that are not negative.\<close>

definition slice :: "'a list \<Rightarrow> nat \<Rightarrow> nat \<Rightarrow> 'a list" where
  "slice xs a b = take (b - a) (drop a xs)"

text \<open>\<^verbatim>\<open>str(n)\<close> of an integer, in decimal.\<close>

definition digit_char :: "nat \<Rightarrow> char" where
  "digit_char n = ''0123456789'' ! n"

fun digits :: "nat \<Rightarrow> string" where
  "digits n =
     (if n < 10 then [digit_char n]
      else digits (n div 10) @ [digit_char (n mod 10)])"

definition str :: "int \<Rightarrow> string" where
  "str i = (if i < 0 then CHR ''-'' # digits (nat (- i)) else digits (nat i))"

subsection \<open>The reference dictionary\<close>

text \<open>
  \<^verbatim>\<open>table_refs\<close> is a module-level \<^verbatim>\<open>dict\<close> from citation key to number. It is
  modelled as an association list with distinct keys, a new key going to the end.
\<close>

type_synonym ref_dict = "(string \<times> int) list"

definition has_key :: "ref_dict \<Rightarrow> string \<Rightarrow> bool" where
  "has_key d k = (k \<in> set (map fst d))"

definition dict_get :: "ref_dict \<Rightarrow> string \<Rightarrow> py_error + int" where
  "dict_get d k = (case map_of d k of None \<Rightarrow> Inl KeyError | Some v \<Rightarrow> Inr v)"

definition dict_set :: "ref_dict \<Rightarrow> string \<Rightarrow> int \<Rightarrow> ref_dict" where
  "dict_set d k v =
     (if has_key d k then map (\<lambda>(k', v'). if k' = k then (k', v) else (k', v')) d
      else d @ [(k, v)])"

text \<open>The body of the innermost loop of \<^verbatim>\<open>create_ref_dict\<close>; the state is the
  dictionary and the counter \<^verbatim>\<open>i\<close>.\<close>

fun add_item :: "ref_dict \<times> int \<Rightarrow> string \<Rightarrow> ref_dict \<times> int" where
  "add_item (d, i) item =
     (if has_key d item then (d, i) else (dict_set d item i, i + 1))"

definition create_ref_dict :: "string list list list \<Rightarrow> ref_dict \<Rightarrow> ref_dict" where
  "create_ref_dict refs d =
     fst (foldl (\<lambda>s line. foldl (\<lambda>s col. foldl add_item s col) s line) (d, 1) refs)"

subsection \<open>The footnote\<close>

text \<open>
  \<^verbatim>\<open>table_note_gen(refs)\<close> ignores its argument and reads \<^verbatim>\<open>table_refs\<close>.
  \<^verbatim>\<open>sorted(..., key=lambda x: x[1])\<close> is a stable sort on the number. The order in
  which a Python 2 \<^verbatim>\<open>dict\<close> lists its items is not specified; here it is the
  order of the association list.
\<close>

definition note_entry :: "string \<times> int \<Rightarrow> string" where
  "note_entry x = ''('' @ str (snd x) @ '') '' @ [bsl] @ ''citet{'' @ fst x @ ''}, ''"

definition table_note_gen :: "string list list list \<Rightarrow> ref_dict \<Rightarrow> string" where
  "table_note_gen refs d =
     (let src = sort_key snd d;
          clist = concat (map note_entry src)
      in [bsl] @ ''tablenotetext{}{{'' @ [bsl] @ ''bf References.} ''
           @ rstrip_chars '', '' clist @ ''}'')"

subsection \<open>Reading the table\<close>

text \<open>The lines of a file as \<^verbatim>\<open>fileinput\<close> yields them: each keeps its line feed.\<close>

fun readlines :: "string \<Rightarrow> string list" where
  "readlines [] = []"
| "readlines (c # cs) =
     (if c = nl then [nl] # readlines cs
      else (case readlines cs of [] \<Rightarrow> [[c]] | l # ls \<Rightarrow> (c # l) # ls))"

definition startdata :: string where
  "startdata = [bsl] @ ''startdata'' @ [nl]"

definition enddata :: string where
  "enddata = [bsl] @ ''enddata'' @ [nl]"

text \<open>\<^verbatim>\<open>x.rstrip('\n').rstrip().rstrip('\\\\').split('&')\<close>\<close>

definition split_row :: "string \<Rightarrow> string list" where
  "split_row x = split_on CHR ''&'' (rstrip_chars [bsl, bsl] (rstrip (rstrip_chars [nl] x)))"

text \<open>The argument \<^verbatim>\<open>cols\<close>: the default \<^verbatim>\<open>'Last'\<close>, or a sequence of integers.\<close>

datatype cols = Last | Cols "int list"

definition select_cols :: "cols \<Rightarrow> string list list \<Rightarrow> py_error + int list" where
  "select_cols cols data =
     (case cols of
        Last \<Rightarrow> (case data of [] \<Rightarrow> Inl IndexError | row # _ \<Rightarrow> Inr [int (length row) - 1])
      | Cols cs \<Rightarrow> Inr cs)"

text \<open>A list comprehension whose element expression can raise.\<close>

fun try_map :: "('a \<Rightarrow> py_error + 'b) \<Rightarrow> 'a list \<Rightarrow> py_error + 'b list" where
  "try_map f [] = Inr []"
| "try_map f (x # xs) =
     (case f x of
        Inl e \<Rightarrow> Inl e
      | Inr y \<Rightarrow> (case try_map f xs of Inl e \<Rightarrow> Inl e | Inr ys \<Rightarrow> Inr (y # ys)))"

text \<open>\<^verbatim>\<open>s[s.index('{') + 1 : s.index('}')]\<close>\<close>

definition cite_of :: "string \<Rightarrow> py_error + string" where
  "cite_of s =
     (case index_of CHR ''{'' s of
        Inl e \<Rightarrow> Inl e
      | Inr a \<Rightarrow>
          (case index_of CHR ''}'' s of
             Inl e \<Rightarrow> Inl e
           | Inr b \<Rightarrow> Inr (slice s (a + 1) b)))"

text \<open>\<^verbatim>\<open>x[c][x[c].index('{') + 1 : x[c].index('}')]\<close> for a row \<open>x\<close>.\<close>

definition field_cite :: "string list \<Rightarrow> int \<Rightarrow> py_error + string" where
  "field_cite x c = (case py_index x c of Inl e \<Rightarrow> Inl e | Inr n \<Rightarrow> cite_of (x ! n))"

definition extract_cites :: "int list \<Rightarrow> string list list \<Rightarrow> py_error + string list list" where
  "extract_cites col data = try_map (\<lambda>x. try_map (field_cite x) col) data"

text \<open>\<^verbatim>\<open>[[x[i].split(',') for i in range(len(col))] for x in cites]\<close>\<close>

definition split_cites :: "int list \<Rightarrow> string list list \<Rightarrow> string list list list" where
  "split_cites col cites =
     map (\<lambda>x. map (\<lambda>i. split_on CHR '','' (x ! i)) [0..<length col]) cites"

subsection \<open>Rewriting the cells\<close>

text \<open>The loop \<^verbatim>\<open>for r in refs[i][j]\<close> on the text of one field.\<close>

fun replace_refs :: "ref_dict \<Rightarrow> string list \<Rightarrow> string \<Rightarrow> py_error + string" where
  "replace_refs d [] s = Inr s"
| "replace_refs d (r # rs) s =
     (case dict_get d r of
        Inl e \<Rightarrow> Inl e
      | Inr n \<Rightarrow> replace_refs d rs (replace r (str n) s))"

definition strip_macros :: "string \<Rightarrow> string" where
  "strip_macros s =
     replace ''}'' [] (replace ([bsl] @ ''cite{'') []
       (replace ([bsl] @ ''citep{'') [] (replace ([bsl] @ ''citet{'') [] s)))"

text \<open>\<^verbatim>\<open>', '.join(sorted(s.rstrip().lstrip().split(',')))\<close>\<close>

definition sort_numbers :: "string \<Rightarrow> string" where
  "sort_numbers s = join '', '' (sort (split_on CHR '','' (lstrip (rstrip s))))"

definition rewrite_cell :: "ref_dict \<Rightarrow> string list \<Rightarrow> string \<Rightarrow> py_error + string" where
  "rewrite_cell d rs s =
     (case replace_refs d rs s of
        Inl e \<Rightarrow> Inl e
      | Inr s' \<Rightarrow> Inr (sort_numbers (strip_macros s')))"

text \<open>The loop \<^verbatim>\<open>for j in range(len(col))\<close> on one row, \<open>rs\<close> being \<^verbatim>\<open>refs[i]\<close>.\<close>

fun rewrite_row ::
  "ref_dict \<Rightarrow> int list \<Rightarrow> string list list \<Rightarrow> nat list \<Rightarrow> string list \<Rightarrow> py_error + string list"
where
  "rewrite_row d col rs [] row = Inr row"
| "rewrite_row d col rs (j # js) row =
     (case py_index row (col ! j) of
        Inl e \<Rightarrow> Inl e
      | Inr n \<Rightarrow>
          (case rewrite_cell d (rs ! j) (row ! n) of
             Inl e \<Rightarrow> Inl e
           | Inr s \<Rightarrow> rewrite_row d col rs js (row[n := s])))"

text \<open>The loop \<^verbatim>\<open>for i in range(len(data))\<close>.\<close>

definition rewrite_data ::
  "ref_dict \<Rightarrow> int list \<Rightarrow> string list list list \<Rightarrow> string list list \<Rightarrow> py_error + string list list"
where
  "rewrite_data d col refs data =
     try_map (\<lambda>i. rewrite_row d col (refs ! i) [0..<length col] (data ! i)) [0..<length data]"

subsection \<open>The state and the output file\<close>

text \<open>
  What a call can read and change: the module's dictionary and the files, each file
  name with its content. Failures of the operating system while writing are not
  modelled.
\<close>

record world =
  table_refs :: ref_dict
  files :: "string \<rightharpoonup> string"

text \<open>\<^verbatim>\<open>open(name, 'w')\<close> creates the file or empties it; \<^verbatim>\<open>fout.write(s)\<close> appends.\<close>

definition fopen_w :: "string \<Rightarrow> world \<Rightarrow> world" where
  "fopen_w name w = w\<lparr>files := (files w)(name \<mapsto> [])\<rparr>"

definition fwrite :: "string \<Rightarrow> string \<Rightarrow> world \<Rightarrow> world" where
  "fwrite name s w =
     w\<lparr>files := (files w)(name \<mapsto> (case files w name of None \<Rightarrow> s | Some c \<Rightarrow> c @ s))\<rparr>"

text \<open>\<^verbatim>\<open>for i in ...: fout.write(table[i])\<close>\<close>

fun write_lines :: "string \<Rightarrow> string list \<Rightarrow> nat list \<Rightarrow> world \<Rightarrow> py_error option \<times> world" where
  "write_lines name table [] w = (None, w)"
| "write_lines name table (i # is) w =
     (if i < length table then write_lines name table is (fwrite name (table ! i) w)
      else (Some IndexError, w))"

text \<open>The loop over the rewritten rows: \<^verbatim>\<open>' \\'\<close> after every row but the last.\<close>

fun write_rows :: "string \<Rightarrow> string list \<Rightarrow> nat list \<Rightarrow> world \<Rightarrow> world" where
  "write_rows name data [] w = w"
| "write_rows name data (i # is) w =
     write_rows name data is
       (fwrite name
          ((if int i < int (length data) - 1 then data ! i @ '' '' @ [bsl, bsl] else data ! i) @ [nl])
          w)"

definition write_to_file ::
  "string \<Rightarrow> string list \<Rightarrow> string list \<Rightarrow> string \<Rightarrow> nat \<Rightarrow> nat \<Rightarrow> world \<Rightarrow> py_error option \<times> world"
where
  "write_to_file f table data tablenote start stop w =
     (let out = f @ ''_new'';
          w1 = fopen_w out w
      in case write_lines out table [0..<start + 1] w1 of
           (Some e, w2) \<Rightarrow> (Some e, w2)
         | (None, w2) \<Rightarrow>
             (let w3 = write_rows out data [0..<length data] w2
              in if stop < length table
                 then (let w4 = fwrite out (table ! stop @ [nl]) w3;
                           w5 = fwrite out (tablenote @ [nl]) w4
                       in write_lines out table [stop + 1..<length table] w5)
                 else (Some IndexError, w3)))"

subsection \<open>The conversion\<close>

definition order_refs :: "string \<Rightarrow> cols \<Rightarrow> world \<Rightarrow> py_error option \<times> world" where
  "order_refs f cols w =
     (case files w f of
        None \<Rightarrow> (Some SystemExit, w)
      | Some content \<Rightarrow>
          (let table = readlines content
           in case index_of startdata table of
                Inl e \<Rightarrow> (Some e, w)
              | Inr start \<Rightarrow>
                  (case index_of enddata table of
                     Inl e \<Rightarrow> (Some e, w)
                   | Inr stop \<Rightarrow>
                       (let data = map split_row (slice table (start + 1) stop)
                        in case select_cols cols data of
                             Inl e \<Rightarrow> (Some e, w)
                           | Inr col \<Rightarrow>
                               (case extract_cites col data of
                                  Inl e \<Rightarrow> (Some e, w)
                                | Inr cites \<Rightarrow>
                                    (let refs = split_cites col cites;
                                         w1 = w\<lparr>table_refs := create_ref_dict refs (table_refs w)\<rparr>;
                                         tablenote = table_note_gen refs (table_refs w1)
                                     in case rewrite_data (table_refs w1) col refs data of
                                          Inl e \<Rightarrow> (Some e, w1)
                                        | Inr data' \<Rightarrow>
                                            write_to_file f table (map (join '' & '') data')
                                              tablenote start stop w1))))))"

subsection \<open>The command line\<close>

text \<open>
  The block under \<^verbatim>\<open>if __name__ == '__main__'\<close>, \<open>argv\<close> being \<^verbatim>\<open>sys.argv\<close>. With
  fewer than two arguments it reads \<^verbatim>\<open>sys.argv[1]\<close>. Otherwise the comprehension
  \<^verbatim>\<open>[float(sys.argv[i]) for i in n_args if i > 1]\<close> iterates over the integer
  \<^verbatim>\<open>n_args\<close>, which raises \<^verbatim>\<open>TypeError\<close> before \<^verbatim>\<open>order_refs\<close> is called.
\<close>

definition main :: "string list \<Rightarrow> world \<Rightarrow> py_error option \<times> world" where
  "main argv w =
     (let n_args = length argv
      in if n_args < 2
         then (case py_index argv 1 of
                 Inl e \<Rightarrow> (Some e, w)
               | Inr n \<Rightarrow> order_refs (argv ! n) Last w)
         else (Some TypeError, w))"

subsection \<open>The documents and cells the specification describes\<close>

text \<open>The text of the rewritten rows: \<^verbatim>\<open>' \\'\<close> and a line feed after every row but
  the last, a line feed after the last.\<close>

fun rows_text :: "string list \<Rightarrow> string" where
  "rows_text [] = []"
| "rows_text [x] = x @ [nl]"
| "rows_text (x # y # ys) = x @ '' '' @ [bsl, bsl] @ [nl] @ rows_text (y # ys)"

text \<open>The output as the specification words it: the lines up to the start marker,
  the rows, the end marker line, the footnote line, the lines after the end marker.\<close>

definition spec_document :: "string list \<Rightarrow> nat \<Rightarrow> nat \<Rightarrow> string list \<Rightarrow> string \<Rightarrow> string" where
  "spec_document table start stop rows note =
     concat (take (start + 1) table) @ rows_text rows @ table ! stop @ note @ [nl]
       @ concat (drop (stop + 1) table)"

text \<open>The same with one empty line after the end marker line.\<close>

definition document :: "string list \<Rightarrow> nat \<Rightarrow> nat \<Rightarrow> string list \<Rightarrow> string \<Rightarrow> string" where
  "document table start stop rows note =
     concat (take (start + 1) table) @ rows_text rows @ table ! stop @ [nl] @ note @ [nl]
       @ concat (drop (stop + 1) table)"


text \<open>A field has a \<^verbatim>\<open>{...}\<close> pair when a closing brace follows its first opening
  brace.\<close>

definition has_brace_pair :: "string \<Rightarrow> bool" where
  "has_brace_pair s = (CHR ''}'' \<in> set (dropWhile (\<lambda>c. c \<noteq> CHR ''{'') s))"

text \<open>The position of the first \<open>v\<close> in a list that has one.\<close>

definition first_pos :: "'a \<Rightarrow> 'a list \<Rightarrow> nat" where
  "first_pos v xs = length (takeWhile (\<lambda>x. x \<noteq> v) xs)"

text \<open>The position that \<^verbatim>\<open>x[c]\<close> reads when \<open>c\<close> is in range.\<close>

definition field_pos :: "'a list \<Rightarrow> int \<Rightarrow> nat" where
  "field_pos x c = nat (if c < 0 then int (length x) + c else c)"

text \<open>The characters of a field strictly between its first \<^verbatim>\<open>{\<close> and its first
  \<^verbatim>\<open>}\<close>, and the keys they give when split on the comma.\<close>

definition between_braces :: "string \<Rightarrow> string" where
  "between_braces s = map ((!) s) [first_pos CHR ''{'' s + 1..<first_pos CHR ''}'' s]"

definition cell_keys :: "string \<Rightarrow> string list" where
  "cell_keys s = split_on CHR '','' (between_braces s)"

text \<open>An index that \<^verbatim>\<open>x[c]\<close> accepts.\<close>

definition in_range :: "'a list \<Rightarrow> int \<Rightarrow> bool" where
  "in_range x c = (- int (length x) \<le> c \<and> c < int (length x))"

text \<open>A row in which every designated column exists and holds both braces.\<close>

definition designated_ok :: "int list \<Rightarrow> string list \<Rightarrow> bool" where
  "designated_ok col x =
     (\<forall>c \<in> set col.
        in_range x c
        \<and> CHR ''{'' \<in> set (x ! field_pos x c)
        \<and> CHR ''}'' \<in> set (x ! field_pos x c))"

text \<open>The keys of a table: for every row, for every designated column in the given
  order, the keys of that field.\<close>

definition table_keys :: "int list \<Rightarrow> string list list \<Rightarrow> string list list list" where
  "table_keys col data = map (\<lambda>x. map (\<lambda>c. cell_keys (x ! field_pos x c)) col) data"

text \<open>
  The rewritten text of a field \<open>s\<close> whose keys are \<open>keys\<close>: for each key in turn,
  every occurrence of the key in the text as it then is becomes the decimal number
  of the key; then the three opening tokens and the closing brace are deleted, white
  space is trimmed at the two ends of the whole text, the text is split on the comma,
  the tokens are sorted as strings and joined with a comma and a space.
\<close>

definition cell_text :: "ref_dict \<Rightarrow> string list \<Rightarrow> string \<Rightarrow> string" where
  "cell_text d keys s =
     join '', '' (sort (split_on CHR '','' (lstrip (rstrip
       (replace ''}'' [] (replace ([bsl] @ ''cite{'') [] (replace ([bsl] @ ''citep{'') []
         (replace ([bsl] @ ''citet{'') []
           (foldl (\<lambda>t r. replace r (str (the (map_of d r))) t) s keys)))))))))"

text \<open>A row after the rewrite: the designated columns are rewritten one after the
  other, each with the keys its field had in the row as read.\<close>

definition rewritten_row :: "ref_dict \<Rightarrow> int list \<Rightarrow> string list \<Rightarrow> string list" where
  "rewritten_row d col x =
     foldl (\<lambda>r c. r[field_pos x c := cell_text d (cell_keys (x ! field_pos x c)) (r ! field_pos x c)])
       x col"

subsection \<open>Small tables\<close>

text \<open>
  A table of two rows whose last column cites SmithA, then JonesB and SmithA, and a
  table of one row that cites JonesB. The world below holds the tables of this
  section as \<^verbatim>\<open>t.tex\<close>, \<^verbatim>\<open>u.tex\<close>, \<^verbatim>\<open>v.tex\<close>, \<^verbatim>\<open>w.tex\<close> and \<^verbatim>\<open>x.tex\<close>, with the
  dictionary empty as it is when the module has just been loaded.
\<close>

definition example_table :: string where
  "example_table =
     [bsl] @ ''tablehead{x}'' @ [nl]
     @ startdata
     @ ''a & '' @ [bsl] @ ''citet{SmithA} '' @ [bsl, bsl] @ [nl]
     @ ''b & '' @ [bsl] @ ''citet{JonesB,SmithA}'' @ [nl]
     @ enddata
     @ [bsl] @ ''end{x}'' @ [nl]"

definition second_table :: string where
  "second_table =
     startdata
     @ ''c & '' @ [bsl] @ ''citet{JonesB}'' @ [nl]
     @ enddata"

text \<open>Three tables that are not well formed: one without the end marker, one whose
  citation field has no braces, one whose citation field has its braces reversed.\<close>

definition no_end_table :: string where
  "no_end_table = startdata @ ''a & '' @ [bsl] @ ''citet{SmithA}'' @ [nl]"

definition no_brace_table :: string where
  "no_brace_table = startdata @ ''a & SmithA'' @ [nl] @ enddata"

definition reversed_brace_table :: string where
  "reversed_brace_table = startdata @ ''a & }{'' @ [nl] @ enddata"

definition example_world :: world where
  "example_world =
     \<lparr>table_refs = [],
      files = [''t.tex'' \<mapsto> example_table, ''u.tex'' \<mapsto> second_table,
               ''v.tex'' \<mapsto> no_end_table, ''w.tex'' \<mapsto> no_brace_table,
               ''x.tex'' \<mapsto> reversed_brace_table]\<rparr>"

text \<open>A table with no row between its markers, alone in a world.\<close>

definition empty_table :: string where
  "empty_table = startdata @ enddata"

definition empty_world :: world where
  "empty_world = \<lparr>table_refs = [], files = [''y.tex'' \<mapsto> empty_table]\<rparr>"

subsection \<open>Functions used in the proofs\<close>

text \<open>The keys of a scan that are not in \<open>S\<close>, each once, in the order in which
  they are first met.\<close>

fun fresh :: "'a set \<Rightarrow> 'a list \<Rightarrow> 'a list" where
  "fresh S [] = []"
| "fresh S (k # ks) = (if k \<in> S then fresh S ks else k # fresh (insert k S) ks)"

text \<open>Consecutive numbers from \<open>i\<close> on, given to a list of keys.\<close>

fun number_from :: "int \<Rightarrow> 'a list \<Rightarrow> ('a \<times> int) list" where
  "number_from i [] = []"
| "number_from i (k # ks) = (k, i) # number_from (i + 1) ks"

section \<open>Properties\<close>

declare digits.simps [simp del]

subsection \<open>The reference dictionary numbers the keys in order of first appearance\<close>

lemma foldl_inner: "foldl (\<lambda>s col. foldl f s col) s line = foldl f s (concat line)"
  by (induction line arbitrary: s) simp_all

lemma foldl_outer:
  "foldl (\<lambda>s line. foldl (\<lambda>s col. foldl f s col) s line) s refs = foldl f s (concat (concat refs))"
  by (induction refs arbitrary: s) (simp_all add: foldl_inner)

lemma add_items_fresh:
  "foldl add_item (d, i) ks =
     (d @ number_from i (fresh (set (map fst d)) ks),
      i + int (length (fresh (set (map fst d)) ks)))"
proof (induction ks arbitrary: d i)
  case Nil
  then show ?case by simp
next
  case (Cons k ks)
  show ?case
  proof (cases "has_key d k")
    case True
    then show ?thesis using Cons.IH [of d i] by (simp add: has_key_def)
  next
    case False
    then show ?thesis using Cons.IH [of "d @ [(k, i)]" "i + 1"]
      by (simp add: has_key_def dict_set_def)
  qed
qed

lemma create_ref_dict_fresh:
  "create_ref_dict refs [] = number_from 1 (fresh {} (concat (concat refs)))"
  by (simp add: create_ref_dict_def foldl_outer add_items_fresh)

lemma fst_number_from: "map fst (number_from i ks) = ks"
  by (induction ks arbitrary: i) simp_all

lemma snd_number_from: "map snd (number_from i ks) = map (\<lambda>n. i + int n) [0..<length ks]"
proof (induction ks arbitrary: i)
  case Nil
  then show ?case by simp
next
  case (Cons k ks)
  have "map (\<lambda>n. i + int n) [0..<Suc (length ks)] = i # map (\<lambda>n. i + 1 + int n) [0..<length ks]"
    by (simp add: upt_conv_Cons map_Suc_upt [symmetric] del: upt_Suc)
  then show ?case using Cons.IH [of "i + 1"] by simp
qed

lemma set_fresh: "set (fresh S ks) = set ks - S"
  by (induction ks arbitrary: S) auto

lemma distinct_fresh: "distinct (fresh S ks)"
  by (induction ks arbitrary: S) (auto simp: set_fresh)

lemma length_fresh: "length (fresh S ks) = card (set ks - S)"
  using distinct_card [OF distinct_fresh, of S ks] by (simp add: set_fresh)

lemma rank_fresh:
  "k \<in> set ks \<Longrightarrow> k \<notin> S \<Longrightarrow>
   map_of (number_from i (fresh S ks)) k =
     Some (i + int (card (set (takeWhile (\<lambda>x. x \<noteq> k) ks) - S)))"
proof (induction ks arbitrary: S i)
  case Nil
  then show ?case by simp
next
  case (Cons x ks)
  show ?case
  proof (cases "x = k")
    case True
    then show ?thesis using Cons.prems by simp
  next
    case xk: False
    then have kin: "k \<in> set ks" using Cons.prems by simp
    show ?thesis
    proof (cases "x \<in> S")
      case True
      then have "set (x # takeWhile (\<lambda>x. x \<noteq> k) ks) - S = set (takeWhile (\<lambda>x. x \<noteq> k) ks) - S"
        by auto
      then show ?thesis using Cons.IH [OF kin Cons.prems(2), of i] xk True by simp
    next
      case False
      let ?T = "set (takeWhile (\<lambda>x. x \<noteq> k) ks)"
      have eq: "set (x # takeWhile (\<lambda>x. x \<noteq> k) ks) - S = insert x (?T - insert x S)"
        using False by auto
      have "card (insert x (?T - insert x S)) = Suc (card (?T - insert x S))"
        by (rule card_insert_disjoint) auto
      then have c: "card (set (x # takeWhile (\<lambda>x. x \<noteq> k) ks) - S) = Suc (card (?T - insert x S))"
        using eq by simp
      have "k \<notin> insert x S" using xk Cons.prems(2) by auto
      from Cons.IH [OF kin this, of "i + 1"] show ?thesis using xk False c by simp
    qed
  qed
qed

text \<open>
  C1. Started on an empty dictionary, \<open>create_ref_dict\<close> gives every key of the scan
  (rows from top to bottom, in a row the columns in the given order, in a cell the
  keys from left to right) exactly one entry; the numbers are \<open>1, ..., K\<close> for \<open>K\<close>
  distinct keys, in this order; the number of a key is one more than the number of
  distinct keys met before its first appearance; and whatever is scanned after that
  does not change it.
\<close>

theorem create_ref_dict_ranks:
  "distinct (map fst (create_ref_dict refs []))
   \<and> set (map fst (create_ref_dict refs [])) = set (concat (concat refs))
   \<and> map snd (create_ref_dict refs []) = map int [1..<Suc (card (set (concat (concat refs))))]
   \<and> (\<forall>k \<in> set (concat (concat refs)).
        map_of (create_ref_dict refs []) k =
          Some (1 + int (card (set (takeWhile (\<lambda>x. x \<noteq> k) (concat (concat refs)))))))
   \<and> (\<forall>k \<in> set (concat (concat refs)).
        map_of (create_ref_dict (refs @ rest) []) k = map_of (create_ref_dict refs []) k)"
proof (intro conjI ballI)
  let ?ks = "concat (concat refs)"
  show "distinct (map fst (create_ref_dict refs []))"
    by (simp add: create_ref_dict_fresh fst_number_from distinct_fresh)
  show "set (map fst (create_ref_dict refs [])) = set ?ks"
    by (simp add: create_ref_dict_fresh fst_number_from set_fresh)
  have "map (\<lambda>n. 1 + int n) [0..<card (set ?ks)] = map int [1..<Suc (card (set ?ks))]"
    by (simp add: map_Suc_upt [symmetric] del: upt_Suc)
  then show "map snd (create_ref_dict refs []) = map int [1..<Suc (card (set ?ks))]"
    by (simp add: create_ref_dict_fresh snd_number_from length_fresh)
  fix k assume k: "k \<in> set ?ks"
  show r: "map_of (create_ref_dict refs []) k =
      Some (1 + int (card (set (takeWhile (\<lambda>x. x \<noteq> k) ?ks))))"
    using rank_fresh [OF k, of "{}" 1] by (simp add: create_ref_dict_fresh)
  have k': "k \<in> set (concat (concat (refs @ rest)))" using k by simp
  have "takeWhile (\<lambda>x. x \<noteq> k) (concat (concat (refs @ rest))) = takeWhile (\<lambda>x. x \<noteq> k) ?ks"
    using k by simp
  then show "map_of (create_ref_dict (refs @ rest) []) k = map_of (create_ref_dict refs []) k"
    using rank_fresh [OF k', of "{}" 1] r by (simp add: create_ref_dict_fresh)
qed

theorem create_ref_dict_ranks_witness:
  "map_of (create_ref_dict [[[''SmithA'']], [[''JonesB'']], [[''SmithA'']]] []) ''JonesB'' = Some 2
   \<and> map_of (create_ref_dict ([[[''SmithA'']], [[''JonesB'']], [[''SmithA'']]] @ [[[''DoeC'', ''JonesB'']]]) [])
        ''JonesB'' = Some 2"
proof -
  let ?refs = "[[[''SmithA'']], [[''JonesB'']], [[''SmithA'']]]"
  have k: "''JonesB'' \<in> set (concat (concat ?refs))" by simp
  have a: "map_of (create_ref_dict ?refs []) ''JonesB'' =
      Some (1 + int (card (set (takeWhile (\<lambda>x. x \<noteq> ''JonesB'') (concat (concat ?refs))))))"
    using create_ref_dict_ranks [of ?refs "[[[''DoeC'', ''JonesB'']]]"] k by blast
  have b: "map_of (create_ref_dict (?refs @ [[[''DoeC'', ''JonesB'']]]) []) ''JonesB'' =
      map_of (create_ref_dict ?refs []) ''JonesB''"
    using create_ref_dict_ranks [of ?refs "[[[''DoeC'', ''JonesB'']]]"] k by blast
  have "map_of (create_ref_dict ?refs []) ''JonesB'' = Some 2" using a by simp
  then show ?thesis using b by simp
qed

subsection \<open>The footnote\<close>

lemma join_Cons: "join sep (x # xs) = (if xs = [] then x else x @ sep @ join sep xs)"
  by (cases xs) simp_all

lemma rstrip_chars_append:
  "x \<in> set b \<Longrightarrow> x \<notin> set cs \<Longrightarrow> rstrip_chars cs (a @ b) = a @ rstrip_chars cs b"
  by (simp add: rstrip_chars_def dropWhile_append1)

lemma rstrip_chars_sep:
  "e \<noteq> [] \<Longrightarrow> last e \<notin> set cs \<Longrightarrow> rstrip_chars cs (e @ cs) = e"
proof -
  assume e: "e \<noteq> []" and l: "last e \<notin> set cs"
  have "dropWhile (\<lambda>c. c \<in> set cs) (rev cs @ rev e) = dropWhile (\<lambda>c. c \<in> set cs) (rev e)"
    by (rule dropWhile_append2) simp
  moreover have "dropWhile (\<lambda>c. c \<in> set cs) (rev e) = rev e"
    using e l by (cases "rev e") (auto simp: last_rev hd_rev [symmetric])
  ultimately show ?thesis by (simp add: rstrip_chars_def)
qed

lemma rstrip_concat_join:
  assumes "\<And>x. x \<in> set xs \<Longrightarrow> e x \<noteq> [] \<and> last (e x) \<notin> set sep"
  shows "rstrip_chars sep (concat (map (\<lambda>x. e x @ sep) xs)) = join sep (map e xs)"
  using assms
proof (induction xs)
  case Nil
  then show ?case by (simp add: rstrip_chars_def)
next
  case (Cons x xs)
  show ?case
  proof (cases xs)
    case Nil
    then show ?thesis using Cons.prems by (simp add: rstrip_chars_sep)
  next
    case (Cons y ys)
    have y: "e y \<noteq> [] \<and> last (e y) \<notin> set sep" using Cons.prems Cons by simp
    then have "last (e y) \<in> set (concat (map (\<lambda>x. e x @ sep) xs))"
      using Cons by simp
    then have "rstrip_chars sep ((e x @ sep) @ concat (map (\<lambda>x. e x @ sep) xs))
      = (e x @ sep) @ rstrip_chars sep (concat (map (\<lambda>x. e x @ sep) xs))"
      using y by (intro rstrip_chars_append [where x = "last (e y)"]) auto
    then show ?thesis using Cons.IH Cons.prems Cons by (simp add: join_Cons)
  qed
qed

text \<open>
  C2, as the code has it. The footnote is one string: the entries of the dictionary
  sorted by number, each rendered as \<^verbatim>\<open>(number) \citet{key}\<close>, joined with a comma
  and a space, inside \<^verbatim>\<open>\tablenotetext{}{{\bf References.} ...}\<close>. For SmithA with
  number 1 and JonesB with number 2 it is
  \<^verbatim>\<open>\tablenotetext{}{{\bf References.} (1) \citet{SmithA}, (2) \citet{JonesB}}\<close>.
\<close>

theorem table_note_gen_format:
  "table_note_gen refs d =
     [bsl] @ ''tablenotetext{}{{'' @ [bsl] @ ''bf References.} ''
       @ join '', '' (map (\<lambda>x. ''('' @ str (snd x) @ '') '' @ [bsl] @ ''citet{'' @ fst x @ ''}'')
                         (sort_key snd d))
       @ ''}''
   \<and> sorted (map snd (sort_key snd d))
   \<and> mset (sort_key snd d) = mset d
   \<and> table_note_gen refs [(''SmithA'', 1), (''JonesB'', 2)] =
       [bsl] @ ''tablenotetext{}{{'' @ [bsl] @ ''bf References.} (1) '' @ [bsl]
         @ ''citet{SmithA}, (2) '' @ [bsl] @ ''citet{JonesB}}''"
proof (intro conjI)
  let ?e = "\<lambda>x. ''('' @ str (snd x) @ '') '' @ [bsl] @ ''citet{'' @ fst x @ ''}''"
  have ne: "note_entry = (\<lambda>x. ?e x @ '', '')"
    by (rule ext) (simp add: note_entry_def)
  have "rstrip_chars '', '' (concat (map (\<lambda>x. ?e x @ '', '') (sort_key snd d)))
      = join '', '' (map ?e (sort_key snd d))"
    by (rule rstrip_concat_join) simp
  then show "table_note_gen refs d =
     [bsl] @ ''tablenotetext{}{{'' @ [bsl] @ ''bf References.} ''
       @ join '', '' (map ?e (sort_key snd d)) @ ''}''"
    by (simp add: table_note_gen_def ne)
  show "sorted (map snd (sort_key snd d))" by simp
  show "mset (sort_key snd d) = mset d" by simp
  show "table_note_gen refs [(''SmithA'', 1), (''JonesB'', 2)] =
       [bsl] @ ''tablenotetext{}{{'' @ [bsl] @ ''bf References.} (1) '' @ [bsl]
         @ ''citet{SmithA}, (2) '' @ [bsl] @ ''citet{JonesB}}''"
    by (simp add: table_note_gen_def note_entry_def rstrip_chars_def str_def digits.simps
        digit_char_def)
qed

text \<open>The footnote of SmithA and JonesB is not the string with the bare keys.\<close>

theorem table_note_gen_bare_keys_counterexample:
  "table_note_gen [] [(''SmithA'', 1), (''JonesB'', 2)] \<noteq>
     [bsl] @ ''tablenotetext{}{{'' @ [bsl] @ ''bf References.} (1) SmithA, (2) JonesB}''"
  by (simp add: table_note_gen_def note_entry_def rstrip_chars_def str_def digits.simps
      digit_char_def)

subsection \<open>Lists, positions and slices\<close>

lemma slice_nth: "b \<le> length xs \<Longrightarrow> slice xs a b = map ((!) xs) [a..<b]"
  unfolding slice_def by (rule nth_equalityI) auto

lemma map_nth_take: "n \<le> length xs \<Longrightarrow> map ((!) xs) [0..<n] = take n xs"
  using slice_nth [of n xs 0] by (simp add: slice_def)

lemma map_nth_drop: "map ((!) xs) [n..<length xs] = drop n xs"
  using slice_nth [of "length xs" xs n] by (simp add: slice_def)

lemma index_of_first_pos:
  "index_of v xs = (if v \<in> set xs then Inr (first_pos v xs) else Inl ValueError)"
  by (induction xs) (auto simp: first_pos_def)

lemma first_pos_less: "v \<in> set xs \<Longrightarrow> first_pos v xs < length xs"
  unfolding first_pos_def by (induction xs) auto

lemma index_of_less: "index_of v xs = Inr n \<Longrightarrow> n < length xs"
  by (auto simp: index_of_first_pos first_pos_less split: if_splits)

lemma try_map_length: "try_map g xs = Inr ys \<Longrightarrow> length ys = length xs"
  by (induction xs arbitrary: ys) (auto split: sum.splits)

subsection \<open>Extracting the citation keys of a field\<close>

lemma has_brace_pair_both:
  assumes "has_brace_pair s"
  shows "CHR ''{'' \<in> set s \<and> CHR ''}'' \<in> set s"
proof
  have m: "CHR ''}'' \<in> set (dropWhile (\<lambda>c. c \<noteq> CHR ''{'') s)"
    using assms by (simp add: has_brace_pair_def)
  have "dropWhile (\<lambda>c. c \<noteq> CHR ''{'') s \<noteq> []"
  proof
    assume "dropWhile (\<lambda>c. c \<noteq> CHR ''{'') s = []"
    with m show False by simp
  qed
  then have "\<not> (\<forall>x \<in> set s. x \<noteq> CHR ''{'')"
    unfolding dropWhile_eq_Nil_conv .
  then show "CHR ''{'' \<in> set s" by blast
  show "CHR ''}'' \<in> set s" using m by (rule set_dropWhileD)
qed

text \<open>
  C6, as the code has it. The text taken from a field is the characters strictly
  between its first \<^verbatim>\<open>{\<close> and its first \<^verbatim>\<open>}\<close>, and the keys are that text split on
  the comma. The step fails, with \<^verbatim>\<open>ValueError\<close>, exactly when the field has no
  \<^verbatim>\<open>{\<close> or has no \<^verbatim>\<open>}\<close>; a field it fails on has no \<^verbatim>\<open>{...}\<close> pair. The field of a
  row is read by Python indexing.
\<close>

theorem cite_of_braces:
  "((\<exists>e. cite_of s = Inl e) \<longleftrightarrow> CHR ''{'' \<notin> set s \<or> CHR ''}'' \<notin> set s)
   \<and> (\<forall>e. cite_of s = Inl e \<longrightarrow> e = ValueError)
   \<and> (CHR ''{'' \<in> set s \<and> CHR ''}'' \<in> set s \<longrightarrow>
        cite_of s = Inr (map ((!) s) [first_pos CHR ''{'' s + 1..<first_pos CHR ''}'' s]))
   \<and> ((\<exists>e. cite_of s = Inl e) \<longrightarrow> \<not> has_brace_pair s)
   \<and> (\<forall>n. py_index x c = Inr n \<longrightarrow> field_cite x c = cite_of (x ! n))
   \<and> (\<forall>i < length cites. \<forall>j < length col.
         split_cites col cites ! i ! j = split_on CHR '','' (cites ! i ! j))"
proof (intro conjI)
  show "(\<exists>e. cite_of s = Inl e) \<longleftrightarrow> CHR ''{'' \<notin> set s \<or> CHR ''}'' \<notin> set s"
    by (simp add: cite_of_def index_of_first_pos)
  show "\<forall>e. cite_of s = Inl e \<longrightarrow> e = ValueError"
    by (simp add: cite_of_def index_of_first_pos)
  show "CHR ''{'' \<in> set s \<and> CHR ''}'' \<in> set s \<longrightarrow>
        cite_of s = Inr (map ((!) s) [first_pos CHR ''{'' s + 1..<first_pos CHR ''}'' s])"
    using first_pos_less [of "CHR ''}''" s]
    by (auto simp: cite_of_def index_of_first_pos slice_nth)
  have "has_brace_pair s \<Longrightarrow> CHR ''{'' \<in> set s \<and> CHR ''}'' \<in> set s"
    by (rule has_brace_pair_both)
  then show "(\<exists>e. cite_of s = Inl e) \<longrightarrow> \<not> has_brace_pair s"
    by (auto simp: cite_of_def index_of_first_pos)
  show "\<forall>n. py_index x c = Inr n \<longrightarrow> field_cite x c = cite_of (x ! n)"
    by (simp add: field_cite_def)
  show "\<forall>i < length cites. \<forall>j < length col.
         split_cites col cites ! i ! j = split_on CHR '','' (cites ! i ! j)"
    by (simp add: split_cites_def)
qed

theorem cite_of_braces_witness:
  "cite_of ([bsl] @ ''citet{SmithA,JonesB}'') = Inr ''SmithA,JonesB''
   \<and> cite_of ''SmithA'' = Inl ValueError
   \<and> \<not> has_brace_pair ''SmithA''
   \<and> field_cite [''a '', [bsl] @ ''citet{SmithA}''] (- 1) = cite_of ([bsl] @ ''citet{SmithA}'')
   \<and> split_cites [1] [[''SmithA,JonesB'']] ! 0 ! 0 = [''SmithA'', ''JonesB'']"
proof -
  let ?s = "[bsl] @ ''citet{SmithA,JonesB}''"
  let ?x = "[''a '', [bsl] @ ''citet{SmithA}'']"
  note t = cite_of_braces [of ?s ?x "- 1" "[[''SmithA,JonesB'']]" "[1]"]
  note u = cite_of_braces [of "''SmithA''" ?x "- 1" "[[''SmithA,JonesB'']]" "[1]"]
  have "CHR ''{'' \<in> set ?s \<and> CHR ''}'' \<in> set ?s" by simp
  with t have "cite_of ?s = Inr (map ((!) ?s) [first_pos CHR ''{'' ?s + 1..<first_pos CHR ''}'' ?s])"
    by blast
  then have a: "cite_of ?s = Inr ''SmithA,JonesB''" by (simp add: first_pos_def)
  have "CHR ''{'' \<notin> set ''SmithA'' \<or> CHR ''}'' \<notin> set ''SmithA''" by simp
  with u have e: "\<exists>e. cite_of ''SmithA'' = Inl e" by blast
  with u have b: "cite_of ''SmithA'' = Inl ValueError" by blast
  from u e have c: "\<not> has_brace_pair ''SmithA''" by blast
  have "py_index ?x (- 1) = Inr 1" by (simp add: py_index_def)
  with t have d: "field_cite ?x (- 1) = cite_of (?x ! 1)" by blast
  have "(0::nat) < length [[''SmithA,JonesB'']] \<and> (0::nat) < length [1::int]" by simp
  with t have "split_cites [1] [[''SmithA,JonesB'']] ! 0 ! 0 = split_on CHR '','' ([[''SmithA,JonesB'']] ! 0 ! 0)"
    by blast
  then have f: "split_cites [1] [[''SmithA,JonesB'']] ! 0 ! 0 = [''SmithA'', ''JonesB'']" by simp
  show ?thesis using a b c d f by simp
qed

text \<open>The field \<^verbatim>\<open>}{\<close> has no \<^verbatim>\<open>{...}\<close> pair, and the step does not fail on it.\<close>

theorem cite_of_reversed_braces_counterexample:
  "\<not> ((\<exists>e. cite_of ''}{'' = Inl e) \<longleftrightarrow> \<not> has_brace_pair ''}{'')"
  by (simp add: cite_of_def has_brace_pair_def slice_def)

subsection \<open>Rewriting a cell\<close>

lemma replace_refs_fold:
  "\<forall>r \<in> set rs. has_key d r \<Longrightarrow>
   replace_refs d rs s = Inr (foldl (\<lambda>t r. replace r (str (the (map_of d r))) t) s rs)"
proof (induction rs arbitrary: s)
  case Nil
  then show ?case by simp
next
  case (Cons r rs)
  then have "has_key d r" by simp
  then have "map_of d r \<noteq> None"
    by (simp add: has_key_def map_of_eq_None_iff)
  then obtain n where n: "map_of d r = Some n" by blast
  then show ?case using Cons by (simp add: dict_get_def)
qed


subsection \<open>The command line\<close>

text \<open>
  C8. The command-line block never calls \<open>order_refs\<close>: with fewer than two
  arguments reading \<^verbatim>\<open>sys.argv[1]\<close> raises \<^verbatim>\<open>IndexError\<close>, with two or more the
  iteration over the integer \<^verbatim>\<open>n_args\<close> raises \<^verbatim>\<open>TypeError\<close>; the world is left as
  it was.
\<close>

theorem main_raises:
  "main argv w = (Some (if length argv < 2 then IndexError else TypeError), w)"
  by (simp add: main_def py_index_def)

subsection \<open>The first example table, step by step\<close>

lemma ex_lines: "readlines example_table =
  [[bsl] @ ''tablehead{x}'' @ [nl], [bsl] @ ''startdata'' @ [nl],
   ''a & '' @ [bsl] @ ''citet{SmithA} '' @ [bsl, bsl] @ [nl],
   ''b & '' @ [bsl] @ ''citet{JonesB,SmithA}'' @ [nl], [bsl] @ ''enddata'' @ [nl],
   [bsl] @ ''end{x}'' @ [nl]]"
  by (simp add: example_table_def startdata_def enddata_def)

lemma ex_start: "index_of startdata (readlines example_table) = Inr 1"
  by (simp add: ex_lines startdata_def)

lemma ex_stop: "index_of enddata (readlines example_table) = Inr 4"
  by (simp add: ex_lines enddata_def)

lemma ex_data: "map split_row (slice (readlines example_table) (1 + 1) 4) =
    [[''a '', '' '' @ [bsl] @ ''citet{SmithA} ''], [''b '', '' '' @ [bsl] @ ''citet{JonesB,SmithA}'']]"
  by (simp add: ex_lines slice_def split_row_def rstrip_def rstrip_chars_def whitespace_def)

lemma ex_cites: "extract_cites [1]
    [[''a '', '' '' @ [bsl] @ ''citet{SmithA} ''], [''b '', '' '' @ [bsl] @ ''citet{JonesB,SmithA}'']]
   = Inr [[''SmithA''], [''JonesB,SmithA'']]"
  by (simp add: extract_cites_def field_cite_def py_index_def cite_of_def slice_def)

lemma ex_refs: "split_cites [1] [[''SmithA''], [''JonesB,SmithA'']] = [[[''SmithA'']], [[''JonesB'', ''SmithA'']]]"
  by (simp add: split_cites_def)

lemma ex_dict: "create_ref_dict [[[''SmithA'']], [[''JonesB'', ''SmithA'']]] [] = [(''SmithA'', 1), (''JonesB'', 2)]"
  by (simp add: create_ref_dict_def has_key_def dict_set_def)

lemma ex_rewrite: "rewrite_data [(''SmithA'', 1), (''JonesB'', 2)] [1] [[[''SmithA'']], [[''JonesB'', ''SmithA'']]]
    [[''a '', '' '' @ [bsl] @ ''citet{SmithA} ''], [''b '', '' '' @ [bsl] @ ''citet{JonesB,SmithA}'']]
   = Inr [[''a '', ''1''], [''b '', ''1, 2'']]"
  by (simp add: rewrite_data_def upt_conv_Cons py_index_def rewrite_cell_def dict_get_def replace_def str_def digits.simps digit_char_def
        strip_macros_def sort_numbers_def rstrip_def lstrip_def rstrip_chars_def lstrip_chars_def
        whitespace_def)

subsection \<open>The default column\<close>

lemma nat_pred: "nat (int n - 1) = n - Suc 0"
  by simp

lemma py_index_last:
  "0 < n \<Longrightarrow> py_index x (int n - 1) = (if n \<le> length x then Inr (n - 1) else Inl IndexError)"
  unfolding py_index_def Let_def by (cases "n \<le> length x") (simp_all add: nat_pred)

lemma field_cite_last:
  "0 < n \<Longrightarrow> try_map (field_cite x) [int n - 1] =
      (if n \<le> length x
       then (case cite_of (x ! (n - 1)) of Inl e \<Rightarrow> Inl e | Inr y \<Rightarrow> Inr [y])
       else Inl IndexError)"
  by (simp add: field_cite_def py_index_last split: sum.splits)

subsection \<open>Writing the output file\<close>

lemma fwrite_existing:
  "files w name = Some c \<Longrightarrow> fwrite name s w = w\<lparr>files := (files w)(name \<mapsto> c @ s)\<rparr>"
  by (simp add: fwrite_def)

lemma write_lines_append:
  "files w name = Some c \<Longrightarrow> \<forall>i \<in> set is. i < length table \<Longrightarrow>
   write_lines name table is w =
     (None, w\<lparr>files := (files w)(name \<mapsto> c @ concat (map ((!) table) is))\<rparr>)"
proof (induction "is" arbitrary: w c)
  case Nil
  then have "(files w)(name \<mapsto> c) = files w" by (simp add: fun_upd_idem)
  then show ?case by simp
next
  case (Cons i "is")
  let ?w = "fwrite name (table ! i) w"
  have w: "?w = w\<lparr>files := (files w)(name \<mapsto> c @ table ! i)\<rparr>"
    using Cons.prems(1) by (rule fwrite_existing)
  then have "files ?w name = Some (c @ table ! i)" by simp
  from Cons.IH [OF this] Cons.prems(2) show ?case by (simp add: w cong: if_cong)
qed

lemma write_rows_append:
  "files w name = Some c \<Longrightarrow> k \<le> length data \<Longrightarrow>
   write_rows name data [k..<length data] w =
     w\<lparr>files := (files w)(name \<mapsto> c @ rows_text (drop k data))\<rparr>"
proof (induction "length data - k" arbitrary: k w c)
  case 0
  then have "(files w)(name \<mapsto> c) = files w" by (simp add: fun_upd_idem)
  then show ?case using 0 by simp
next
  case (Suc n)
  then have k: "k < length data" by simp
  then have upt: "[k..<length data] = k # [Suc k..<length data]" by (simp add: upt_conv_Cons)
  have dr: "drop k data = data ! k # drop (Suc k) data" using k by (simp add: Cons_nth_drop_Suc)
  let ?t = "(if int k < int (length data) - 1 then data ! k @ '' '' @ [bsl, bsl] else data ! k) @ [nl]"
  let ?w = "fwrite name ?t w"
  have w: "?w = w\<lparr>files := (files w)(name \<mapsto> c @ ?t)\<rparr>"
    using Suc.prems(1) by (rule fwrite_existing)
  then have f: "files ?w name = Some (c @ ?t)" by simp
  have n: "n = length data - Suc k" using Suc.hyps(2) by simp
  have ih: "write_rows name data [Suc k..<length data] ?w =
      ?w\<lparr>files := (files ?w)(name \<mapsto> (c @ ?t) @ rows_text (drop (Suc k) data))\<rparr>"
    using Suc.hyps(1) [OF n f] k by simp
  have tt: "?t @ rows_text (drop (Suc k) data) = rows_text (drop k data)"
  proof (cases "Suc k = length data")
    case True
    then show ?thesis by (simp add: dr)
  next
    case False
    then have "Suc k < length data" using k by simp
    then obtain y ys where "drop (Suc k) data = y # ys"
      by (metis Cons_nth_drop_Suc)
    moreover have "int k < int (length data) - 1" using \<open>Suc k < length data\<close> by simp
    ultimately show ?thesis by (simp add: dr)
  qed
  show ?case
    unfolding upt using ih tt [symmetric] by (simp add: w)
qed

lemma write_to_file_document:
  "start < length table \<Longrightarrow> stop < length table \<Longrightarrow>
   write_to_file f table data note start stop w =
     (None, w\<lparr>files := (files w)(f @ ''_new'' \<mapsto> document table start stop data note)\<rparr>)"
proof -
  assume s: "start < length table" and e: "stop < length table"
  let ?out = "f @ ''_new''"
  let ?w1 = "fopen_w ?out w"
  have f1: "files ?w1 ?out = Some []" by (simp add: fopen_w_def)
  have l1: "write_lines ?out table [0..<start + 1] ?w1 =
      (None, ?w1\<lparr>files := (files ?w1)(?out \<mapsto> [] @ concat (take (start + 1) table))\<rparr>)"
    using write_lines_append [OF f1, of "[0..<start + 1]" table] s
    by (simp add: map_nth_take del: upt_Suc)
  let ?w2 = "w\<lparr>files := (files w)(?out \<mapsto> concat (take (start + 1) table))\<rparr>"
  have w2: "?w1\<lparr>files := (files ?w1)(?out \<mapsto> [] @ concat (take (start + 1) table))\<rparr> = ?w2"
    by (simp add: fopen_w_def)
  have f2: "files ?w2 ?out = Some (concat (take (start + 1) table))" by simp
  let ?w3 = "w\<lparr>files := (files w)(?out \<mapsto> concat (take (start + 1) table) @ rows_text data)\<rparr>"
  have l3: "write_rows ?out data [0..<length data] ?w2 = ?w3"
    using write_rows_append [OF f2, of 0 data] by simp
  let ?c5 = "concat (take (start + 1) table) @ rows_text data @ table ! stop @ [nl] @ note @ [nl]"
  let ?w5 = "w\<lparr>files := (files w)(?out \<mapsto> ?c5)\<rparr>"
  have l5: "fwrite ?out (note @ [nl]) (fwrite ?out (table ! stop @ [nl]) ?w3) = ?w5"
    by (simp add: fwrite_def)
  have f5: "files ?w5 ?out = Some ?c5" by simp
  have l6: "write_lines ?out table [stop + 1..<length table] ?w5 =
      (None, ?w5\<lparr>files := (files ?w5)(?out \<mapsto> ?c5 @ concat (drop (stop + 1) table))\<rparr>)"
    using write_lines_append [OF f5, of "[stop + 1..<length table]" table]
    by (simp add: map_nth_drop del: upt_Suc)
  show ?thesis
    unfolding write_to_file_def Let_def l1 w2 prod.case option.case l3
    using e unfolding l5 l6 document_def by simp
qed

lemma order_refs_success:
  assumes "files w f = Some content"
    and "index_of startdata (readlines content) = Inr start"
    and "index_of enddata (readlines content) = Inr stop"
    and "select_cols cols (map split_row (slice (readlines content) (start + 1) stop)) = Inr col"
    and "extract_cites col (map split_row (slice (readlines content) (start + 1) stop)) = Inr cites"
    and "rewrite_data (create_ref_dict (split_cites col cites) (table_refs w)) col (split_cites col cites)
           (map split_row (slice (readlines content) (start + 1) stop)) = Inr rows"
  shows "order_refs f cols w =
    (None, w\<lparr>table_refs := create_ref_dict (split_cites col cites) (table_refs w),
              files := (files w)(f @ ''_new'' \<mapsto>
                document (readlines content) start stop (map (join '' & '') rows)
                  (table_note_gen (split_cites col cites)
                     (create_ref_dict (split_cites col cites) (table_refs w))))\<rparr>)"
  using assms index_of_less [OF assms(2)] index_of_less [OF assms(3)]
  by (simp add: order_refs_def Let_def write_to_file_document)

lemma order_refs_outcome:
  assumes "order_refs f cols w = (r, w')"
  shows "(r \<noteq> None \<and> files w' = files w)
       \<or> (r = None \<and> (\<exists>content start stop rows.
             files w f = Some content
           \<and> index_of startdata (readlines content) = Inr start
           \<and> index_of enddata (readlines content) = Inr stop
           \<and> length rows = length (slice (readlines content) (start + 1) stop)
           \<and> files w' = (files w)(f @ ''_new'' \<mapsto>
                document (readlines content) start stop (map (join '' & '') rows)
                  (table_note_gen [] (table_refs w')))))"
proof (cases "files w f")
  case None
  then show ?thesis using assms by (auto simp: order_refs_def)
next
  case (Some content)
  note c = Some
  show ?thesis
  proof (cases "index_of startdata (readlines content)")
    case (Inl e)
    then show ?thesis using assms c by (auto simp: order_refs_def)
  next
    case (Inr start)
    note s = Inr
    show ?thesis
    proof (cases "index_of enddata (readlines content)")
      case (Inl e)
      then show ?thesis using assms c s by (auto simp: order_refs_def)
    next
      case (Inr stop)
      note e = Inr
      let ?data = "map split_row (slice (readlines content) (start + 1) stop)"
      show ?thesis
      proof (cases "select_cols cols ?data")
        case (Inl x)
        then show ?thesis using assms c s e by (auto simp: order_refs_def)
      next
        case (Inr col)
        note sc = Inr
        show ?thesis
        proof (cases "extract_cites col ?data")
          case (Inl x)
          then show ?thesis using assms c s e sc by (auto simp: order_refs_def)
        next
          case (Inr cites)
          note ci = Inr
          let ?d = "create_ref_dict (split_cites col cites) (table_refs w)"
          show ?thesis
          proof (cases "rewrite_data ?d col (split_cites col cites) ?data")
            case (Inl x)
            then show ?thesis using assms c s e sc ci by (auto simp: order_refs_def Let_def)
          next
            case (Inr rows)
            have len: "length rows = length ?data"
              using try_map_length [OF Inr [unfolded rewrite_data_def]] by simp
            have tn: "\<And>refs d. table_note_gen refs d = table_note_gen [] d"
              by (simp add: table_note_gen_def)
            from order_refs_success [OF c s e sc ci Inr] assms
            have r: "r = None" and w': "w' = w\<lparr>table_refs := ?d,
              files := (files w)(f @ ''_new'' \<mapsto>
                document (readlines content) start stop (map (join '' & '') rows)
                  (table_note_gen (split_cites col cites) ?d))\<rparr>"
              by simp_all
            have "files w' = (files w)(f @ ''_new'' \<mapsto>
                document (readlines content) start stop (map (join '' & '') rows)
                  (table_note_gen [] (table_refs w')))"
              unfolding w' using tn [of "split_cites col cites" ?d] by simp
            then have "files w f = Some content
               \<and> index_of startdata (readlines content) = Inr start
               \<and> index_of enddata (readlines content) = Inr stop
               \<and> length rows = length (slice (readlines content) (start + 1) stop)
               \<and> files w' = (files w)(f @ ''_new'' \<mapsto>
                    document (readlines content) start stop (map (join '' & '') rows)
                      (table_note_gen [] (table_refs w')))"
              using c s e len by simp
            then show ?thesis using r by blast
          qed
        qed
      qed
    qed
  qed
qed

lemma nth_first_pos: "v \<in> set xs \<Longrightarrow> xs ! first_pos v xs = v"
  unfolding first_pos_def by (induction xs) auto

lemma index_of_nth: "index_of v xs = Inr n \<Longrightarrow> xs ! n = v"
  by (auto simp: index_of_first_pos nth_first_pos split: if_splits)

lemma index_of_absent: "v \<notin> set xs \<Longrightarrow> index_of v xs = Inl ValueError"
  by (simp add: index_of_first_pos)

lemma concat_readlines: "concat (readlines s) = s"
  by (induction s) (auto split: list.splits)

lemma rows_text_butlast:
  "rows_text data =
     concat (map (\<lambda>x. x @ '' '' @ [bsl, bsl] @ [nl]) (butlast data))
       @ (if data = [] then [] else last data @ [nl])"
  by (induction data rule: rows_text.induct) simp_all

lemma document_not_spec_document:
  "document table start stop rows (table_note_gen refs d) \<noteq>
   spec_document table start stop rows (table_note_gen refs d)"
  by (simp add: document_def spec_document_def table_note_gen_def)

lemma try_map_fails:
  "x \<in> set xs \<Longrightarrow> g x = Inl e \<Longrightarrow> \<exists>e'. try_map g xs = Inl e'"
  by (induction xs) (auto split: sum.splits)

lemma ex_order_refs:
  "order_refs ''t.tex'' Last example_world =
     (None, example_world\<lparr>table_refs := [(''SmithA'', 1), (''JonesB'', 2)],
        files := (files example_world)(''t.tex_new'' \<mapsto>
          document (readlines example_table) 1 4 (map (join '' & '') [[''a '', ''1''], [''b '', ''1, 2'']])
            (table_note_gen [[[''SmithA'']], [[''JonesB'', ''SmithA'']]]
               [(''SmithA'', 1), (''JonesB'', 2)]))\<rparr>)"
proof -
  have f: "files example_world ''t.tex'' = Some example_table" by (simp add: example_world_def)
  have t: "table_refs example_world = []" by (simp add: example_world_def)
  have sc: "select_cols Last (map split_row (slice (readlines example_table) (1 + 1) 4)) = Inr [1]"
    unfolding ex_data by (simp add: select_cols_def)
  have ci: "extract_cites [1] (map split_row (slice (readlines example_table) (1 + 1) 4))
      = Inr [[''SmithA''], [''JonesB,SmithA'']]"
    unfolding ex_data by (rule ex_cites)
  have rw: "rewrite_data (create_ref_dict (split_cites [1] [[''SmithA''], [''JonesB,SmithA'']])
        (table_refs example_world)) [1] (split_cites [1] [[''SmithA''], [''JonesB,SmithA'']])
        (map split_row (slice (readlines example_table) (1 + 1) 4)) = Inr [[''a '', ''1''], [''b '', ''1, 2'']]"
    unfolding ex_data ex_refs t ex_dict by (rule ex_rewrite)
  show ?thesis
    using order_refs_success [OF f ex_start ex_stop sc ci rw]
    unfolding ex_refs t ex_dict by simp
qed

text \<open>The file written for the first example table is not the document without the
  empty line after the end marker line.\<close>

theorem output_document_blank_line_counterexample:
  "files (snd (order_refs ''t.tex'' Last example_world)) ''t.tex_new'' \<noteq>
     Some (spec_document (readlines example_table) 1 4
             (map (join '' & '') [[''a '', ''1''], [''b '', ''1, 2'']])
             (table_note_gen [] [(''SmithA'', 1), (''JonesB'', 2)]))"
proof -
  have tn: "table_note_gen [[[''SmithA'']], [[''JonesB'', ''SmithA'']]] [(''SmithA'', 1), (''JonesB'', 2)]
      = table_note_gen [] [(''SmithA'', 1), (''JonesB'', 2)]"
    by (simp add: table_note_gen_def)
  have "files (snd (order_refs ''t.tex'' Last example_world)) ''t.tex_new'' =
     Some (document (readlines example_table) 1 4
             (map (join '' & '') [[''a '', ''1''], [''b '', ''1, 2'']])
             (table_note_gen [] [(''SmithA'', 1), (''JonesB'', 2)]))"
    unfolding ex_order_refs tn by simp
  then show ?thesis
    using document_not_spec_document [of "readlines example_table" 1 4
        "map (join '' & '') [[''a '', ''1''], [''b '', ''1, 2'']]" "[]" "[(''SmithA'', 1), (''JonesB'', 2)]"]
    by simp
qed

subsection \<open>All or nothing\<close>

lemma order_refs_missing_marker:
  assumes "files w f = Some content"
    and "startdata \<notin> set (readlines content) \<or> enddata \<notin> set (readlines content)"
  shows "order_refs f cols w = (Some ValueError, w)"
proof (cases "startdata \<in> set (readlines content)")
  case False
  then show ?thesis using assms(1) by (simp add: order_refs_def index_of_absent)
next
  case True
  then have "enddata \<notin> set (readlines content)" using assms(2) by simp
  then show ?thesis using assms(1) True
    by (simp add: order_refs_def index_of_absent index_of_first_pos)
qed

lemma order_refs_missing_brace:
  assumes "files w f = Some content"
    and "index_of startdata (readlines content) = Inr start"
    and "index_of enddata (readlines content) = Inr stop"
    and "select_cols cols (map split_row (slice (readlines content) (start + 1) stop)) = Inr col"
    and "row \<in> set (map split_row (slice (readlines content) (start + 1) stop))"
    and "c \<in> set col"
    and "py_index row c = Inr n"
    and "CHR ''{'' \<notin> set (row ! n) \<or> CHR ''}'' \<notin> set (row ! n)"
  shows "\<exists>e. order_refs f cols w = (Some e, w)"
proof -
  have "cite_of (row ! n) = Inl ValueError"
    using assms(8) by (auto simp: cite_of_def index_of_first_pos)
  then have "field_cite row c = Inl ValueError"
    using assms(7) by (simp add: field_cite_def)
  from try_map_fails [of c col "field_cite row" ValueError, OF assms(6) this]
  obtain e where e: "try_map (field_cite row) col = Inl e" by blast
  from try_map_fails [of row _ "\<lambda>x. try_map (field_cite x) col" e, OF assms(5) e]
  obtain e' where "extract_cites col (map split_row (slice (readlines content) (start + 1) stop)) = Inl e'"
    unfolding extract_cites_def by blast
  then show ?thesis using assms(1-4) by (simp add: order_refs_def)
qed

lemma v_lines: "readlines no_end_table =
    [[bsl] @ ''startdata'' @ [nl], ''a & '' @ [bsl] @ ''citet{SmithA}'' @ [nl]]"
  by (simp add: no_end_table_def startdata_def)

lemma w_lines: "readlines no_brace_table =
    [[bsl] @ ''startdata'' @ [nl], ''a & SmithA'' @ [nl], [bsl] @ ''enddata'' @ [nl]]"
  by (simp add: no_brace_table_def startdata_def enddata_def)

lemma w_start: "index_of startdata (readlines no_brace_table) = Inr 0"
  by (simp add: w_lines startdata_def)

lemma w_stop: "index_of enddata (readlines no_brace_table) = Inr 2"
  by (simp add: w_lines enddata_def)

lemma w_data: "map split_row (slice (readlines no_brace_table) (0 + 1) 2) = [[''a '', '' SmithA'']]"
  by (simp add: w_lines slice_def split_row_def rstrip_def rstrip_chars_def whitespace_def)

text \<open>
  C5, as the code has it. A run on a missing file, on a table without the start
  marker or without the end marker, or on a table in which a designated field has no
  \<^verbatim>\<open>{\<close> or no \<^verbatim>\<open>}\<close>, fails and leaves the world as it was. Every run either fails and
  leaves all files as they were, or succeeds and has written the whole output
  document to \<^verbatim>\<open><f>_new\<close> and changed no other file.
\<close>

theorem order_refs_all_or_nothing:
  "(files w f = None \<longrightarrow> order_refs f cols w = (Some SystemExit, w))
   \<and> (files w f = Some content
        \<and> (startdata \<notin> set (readlines content) \<or> enddata \<notin> set (readlines content))
      \<longrightarrow> order_refs f cols w = (Some ValueError, w))
   \<and> (files w f = Some content
        \<and> index_of startdata (readlines content) = Inr start
        \<and> index_of enddata (readlines content) = Inr stop
        \<and> select_cols cols (map split_row (slice (readlines content) (start + 1) stop)) = Inr col
        \<and> row \<in> set (map split_row (slice (readlines content) (start + 1) stop))
        \<and> c \<in> set col
        \<and> py_index row c = Inr n
        \<and> (CHR ''{'' \<notin> set (row ! n) \<or> CHR ''}'' \<notin> set (row ! n))
      \<longrightarrow> (\<exists>e. order_refs f cols w = (Some e, w)))
   \<and> (order_refs f cols w = (r, w') \<longrightarrow>
        (r \<noteq> None \<and> files w' = files w)
        \<or> (r = None \<and> (\<exists>content start stop rows.
              files w f = Some content
            \<and> index_of startdata (readlines content) = Inr start
            \<and> index_of enddata (readlines content) = Inr stop
            \<and> length rows = length (slice (readlines content) (start + 1) stop)
            \<and> files w' = (files w)(f @ ''_new'' \<mapsto>
                 document (readlines content) start stop (map (join '' & '') rows)
                   (table_note_gen [] (table_refs w'))))))"
proof (intro conjI impI)
  assume "files w f = None"
  then show "order_refs f cols w = (Some SystemExit, w)" by (simp add: order_refs_def)
next
  assume "files w f = Some content
        \<and> (startdata \<notin> set (readlines content) \<or> enddata \<notin> set (readlines content))"
  then show "order_refs f cols w = (Some ValueError, w)"
    using order_refs_missing_marker by blast
next
  assume "files w f = Some content
        \<and> index_of startdata (readlines content) = Inr start
        \<and> index_of enddata (readlines content) = Inr stop
        \<and> select_cols cols (map split_row (slice (readlines content) (start + 1) stop)) = Inr col
        \<and> row \<in> set (map split_row (slice (readlines content) (start + 1) stop))
        \<and> c \<in> set col
        \<and> py_index row c = Inr n
        \<and> (CHR ''{'' \<notin> set (row ! n) \<or> CHR ''}'' \<notin> set (row ! n))"
  then show "\<exists>e. order_refs f cols w = (Some e, w)"
    using order_refs_missing_brace [of w f content start stop cols col row c n] by blast
next
  assume "order_refs f cols w = (r, w')"
  then show "(r \<noteq> None \<and> files w' = files w)
        \<or> (r = None \<and> (\<exists>content start stop rows.
              files w f = Some content
            \<and> index_of startdata (readlines content) = Inr start
            \<and> index_of enddata (readlines content) = Inr stop
            \<and> length rows = length (slice (readlines content) (start + 1) stop)
            \<and> files w' = (files w)(f @ ''_new'' \<mapsto>
                 document (readlines content) start stop (map (join '' & '') rows)
                   (table_note_gen [] (table_refs w')))))"
    by (rule order_refs_outcome)
qed

theorem order_refs_all_or_nothing_witness:
  "order_refs ''nofile.tex'' Last example_world = (Some SystemExit, example_world)
   \<and> order_refs ''v.tex'' Last example_world = (Some ValueError, example_world)
   \<and> (\<exists>e. order_refs ''w.tex'' Last example_world = (Some e, example_world))
   \<and> (\<exists>content start stop rows.
         files example_world ''t.tex'' = Some content
       \<and> index_of startdata (readlines content) = Inr start
       \<and> index_of enddata (readlines content) = Inr stop
       \<and> length rows = length (slice (readlines content) (start + 1) stop)
       \<and> files (snd (order_refs ''t.tex'' Last example_world)) =
            (files example_world)(''t.tex'' @ ''_new'' \<mapsto>
              document (readlines content) start stop (map (join '' & '') rows)
                (table_note_gen [] (table_refs (snd (order_refs ''t.tex'' Last example_world))))))"
proof (intro conjI)
  have "files example_world ''nofile.tex'' = None" by (simp add: example_world_def)
  from mp [OF conjunct1 [OF order_refs_all_or_nothing] this]
  show "order_refs ''nofile.tex'' Last example_world = (Some SystemExit, example_world)" .
next
  have "files example_world ''v.tex'' = Some no_end_table
      \<and> (startdata \<notin> set (readlines no_end_table) \<or> enddata \<notin> set (readlines no_end_table))"
    by (simp add: example_world_def v_lines enddata_def)
  from mp [OF conjunct1 [OF conjunct2 [OF order_refs_all_or_nothing]] this]
  show "order_refs ''v.tex'' Last example_world = (Some ValueError, example_world)" .
next
  have sc: "select_cols Last (map split_row (slice (readlines no_brace_table) (0 + 1) 2)) = Inr [1]"
    unfolding w_data by (simp add: select_cols_def)
  have "files example_world ''w.tex'' = Some no_brace_table
        \<and> index_of startdata (readlines no_brace_table) = Inr 0
        \<and> index_of enddata (readlines no_brace_table) = Inr 2
        \<and> select_cols Last (map split_row (slice (readlines no_brace_table) (0 + 1) 2)) = Inr [1]
        \<and> [''a '', '' SmithA''] \<in> set (map split_row (slice (readlines no_brace_table) (0 + 1) 2))
        \<and> 1 \<in> set [1::int]
        \<and> py_index [''a '', '' SmithA''] 1 = Inr 1
        \<and> (CHR ''{'' \<notin> set ([''a '', '' SmithA''] ! 1) \<or> CHR ''}'' \<notin> set ([''a '', '' SmithA''] ! 1))"
    unfolding w_data using w_start w_stop sc [unfolded w_data]
    by (simp add: example_world_def py_index_def)
  from mp [OF conjunct1 [OF conjunct2 [OF conjunct2 [OF order_refs_all_or_nothing]]] this]
  show "\<exists>e. order_refs ''w.tex'' Last example_world = (Some e, example_world)" .
next
  have h: "order_refs ''t.tex'' Last example_world = (None, snd (order_refs ''t.tex'' Last example_world))"
    by (simp add: ex_order_refs)
  from mp [OF conjunct2 [OF conjunct2 [OF conjunct2 [OF order_refs_all_or_nothing]]] h]
  show "\<exists>content start stop rows.
         files example_world ''t.tex'' = Some content
       \<and> index_of startdata (readlines content) = Inr start
       \<and> index_of enddata (readlines content) = Inr stop
       \<and> length rows = length (slice (readlines content) (start + 1) stop)
       \<and> files (snd (order_refs ''t.tex'' Last example_world)) =
            (files example_world)(''t.tex'' @ ''_new'' \<mapsto>
              document (readlines content) start stop (map (join '' & '') rows)
                (table_note_gen [] (table_refs (snd (order_refs ''t.tex'' Last example_world)))))"
    by simp
qed

lemma x_lines: "readlines reversed_brace_table =
    [[bsl] @ ''startdata'' @ [nl], ''a & }{'' @ [nl], [bsl] @ ''enddata'' @ [nl]]"
  by (simp add: reversed_brace_table_def startdata_def enddata_def)

lemma x_start: "index_of startdata (readlines reversed_brace_table) = Inr 0"
  by (simp add: x_lines startdata_def)

lemma x_stop: "index_of enddata (readlines reversed_brace_table) = Inr 2"
  by (simp add: x_lines enddata_def)

lemma x_data: "map split_row (slice (readlines reversed_brace_table) (0 + 1) 2) = [[''a '', '' }{'']]"
  by (simp add: x_lines slice_def split_row_def rstrip_def rstrip_chars_def whitespace_def)

lemma x_cites: "extract_cites [1] [[''a '', '' }{'']] = Inr [[[]]]"
  by (simp add: extract_cites_def field_cite_def py_index_def cite_of_def slice_def)

lemma x_refs: "split_cites [1] [[[]]] = [[[[]]]]"
  by (simp add: split_cites_def)

lemma x_dict: "create_ref_dict [[[[]]]] [] = [([], 1)]"
  by (simp add: create_ref_dict_def has_key_def dict_set_def)

lemma x_rewrite: "rewrite_data [([], 1)] [1] [[[[]]]] [[''a '', '' }{'']] = Inr [[''a '', ''1 11{1'']]"
  by (simp add: rewrite_data_def py_index_def rewrite_cell_def dict_get_def replace_def str_def
        digits.simps digit_char_def strip_macros_def sort_numbers_def rstrip_def lstrip_def
        rstrip_chars_def lstrip_chars_def whitespace_def)

lemma x_order_refs:
  "order_refs ''x.tex'' Last example_world =
     (None, example_world\<lparr>table_refs := [([], 1)],
        files := (files example_world)(''x.tex_new'' \<mapsto>
          document (readlines reversed_brace_table) 0 2 (map (join '' & '') [[''a '', ''1 11{1'']])
            (table_note_gen [[[[]]]] [([], 1)]))\<rparr>)"
proof -
  have f: "files example_world ''x.tex'' = Some reversed_brace_table" by (simp add: example_world_def)
  have t: "table_refs example_world = []" by (simp add: example_world_def)
  have sc: "select_cols Last (map split_row (slice (readlines reversed_brace_table) (0 + 1) 2)) = Inr [1]"
    unfolding x_data by (simp add: select_cols_def)
  have ci: "extract_cites [1] (map split_row (slice (readlines reversed_brace_table) (0 + 1) 2))
      = Inr [[[]]]"
    unfolding x_data by (rule x_cites)
  have rw: "rewrite_data (create_ref_dict (split_cites [1] [[[]]]) (table_refs example_world)) [1]
        (split_cites [1] [[[]]])
        (map split_row (slice (readlines reversed_brace_table) (0 + 1) 2)) = Inr [[''a '', ''1 11{1'']]"
    unfolding x_data x_refs t x_dict by (rule x_rewrite)
  show ?thesis
    using order_refs_success [OF f x_start x_stop sc ci rw]
    unfolding x_refs t x_dict by simp
qed

text \<open>The table whose citation field is \<^verbatim>\<open> }{\<close> has no brace-delimited group in
  that field; the run on it succeeds and writes an output file.\<close>

theorem order_refs_reversed_braces_counterexample:
  "map split_row (slice (readlines reversed_brace_table) (0 + 1) 2) = [[''a '', '' }{'']]
   \<and> \<not> has_brace_pair '' }{''
   \<and> fst (order_refs ''x.tex'' Last example_world) = None
   \<and> files (snd (order_refs ''x.tex'' Last example_world)) ''x.tex_new'' =
       Some ([bsl] @ ''startdata'' @ [nl] @ ''a  & 1 11{1'' @ [nl] @ [bsl] @ ''enddata'' @ [nl] @ [nl]
             @ [bsl] @ ''tablenotetext{}{{'' @ [bsl] @ ''bf References.} (1) '' @ [bsl]
             @ ''citet{}}'' @ [nl])
   \<and> files example_world ''x.tex_new'' = None"
proof (intro conjI)
  show "map split_row (slice (readlines reversed_brace_table) (0 + 1) 2) = [[''a '', '' }{'']]"
    by (rule x_data)
  show "\<not> has_brace_pair '' }{''" by (simp add: has_brace_pair_def)
  show "fst (order_refs ''x.tex'' Last example_world) = None" by (simp add: x_order_refs)
  show "files (snd (order_refs ''x.tex'' Last example_world)) ''x.tex_new'' =
       Some ([bsl] @ ''startdata'' @ [nl] @ ''a  & 1 11{1'' @ [nl] @ [bsl] @ ''enddata'' @ [nl] @ [nl]
             @ [bsl] @ ''tablenotetext{}{{'' @ [bsl] @ ''bf References.} (1) '' @ [bsl]
             @ ''citet{}}'' @ [nl])"
    unfolding x_order_refs
    by (simp add: document_def x_lines table_note_gen_def note_entry_def rstrip_chars_def str_def
        digits.simps digit_char_def)
  show "files example_world ''x.tex_new'' = None" by (simp add: example_world_def)
qed

subsection \<open>Two calls in one process\<close>

lemma u_lines: "readlines second_table =
    [[bsl] @ ''startdata'' @ [nl], ''c & '' @ [bsl] @ ''citet{JonesB}'' @ [nl], [bsl] @ ''enddata'' @ [nl]]"
  by (simp add: second_table_def startdata_def enddata_def)

lemma u_start: "index_of startdata (readlines second_table) = Inr 0"
  by (simp add: u_lines startdata_def)

lemma u_stop: "index_of enddata (readlines second_table) = Inr 2"
  by (simp add: u_lines enddata_def)

lemma u_data: "map split_row (slice (readlines second_table) (0 + 1) 2) =
    [[''c '', '' '' @ [bsl] @ ''citet{JonesB}'']]"
  by (simp add: u_lines slice_def split_row_def rstrip_def rstrip_chars_def whitespace_def)

lemma u_cites: "extract_cites [1] [[''c '', '' '' @ [bsl] @ ''citet{JonesB}'']] = Inr [[''JonesB'']]"
  by (simp add: extract_cites_def field_cite_def py_index_def cite_of_def slice_def)

lemma u_refs: "split_cites [1] [[''JonesB'']] = [[[''JonesB'']]]"
  by (simp add: split_cites_def)

lemma u_dict_fresh: "create_ref_dict [[[''JonesB'']]] [] = [(''JonesB'', 1)]"
  by (simp add: create_ref_dict_def has_key_def dict_set_def)

lemma u_dict_reused:
  "create_ref_dict [[[''JonesB'']]] [(''SmithA'', 1), (''JonesB'', 2)] = [(''SmithA'', 1), (''JonesB'', 2)]"
  by (simp add: create_ref_dict_def has_key_def dict_set_def)

lemma u_rewrite_fresh:
  "rewrite_data [(''JonesB'', 1)] [1] [[[''JonesB'']]] [[''c '', '' '' @ [bsl] @ ''citet{JonesB}'']]
     = Inr [[''c '', ''1'']]"
  by (simp add: rewrite_data_def py_index_def rewrite_cell_def dict_get_def replace_def str_def
        digits.simps digit_char_def strip_macros_def sort_numbers_def rstrip_def lstrip_def
        rstrip_chars_def lstrip_chars_def whitespace_def)

lemma u_rewrite_reused:
  "rewrite_data [(''SmithA'', 1), (''JonesB'', 2)] [1] [[[''JonesB'']]]
     [[''c '', '' '' @ [bsl] @ ''citet{JonesB}'']] = Inr [[''c '', ''2'']]"
  by (simp add: rewrite_data_def py_index_def rewrite_cell_def dict_get_def replace_def str_def
        digits.simps digit_char_def strip_macros_def sort_numbers_def rstrip_def lstrip_def
        rstrip_chars_def lstrip_chars_def whitespace_def)

lemma u_order_refs:
  assumes f: "files w ''u.tex'' = Some second_table"
    and d: "create_ref_dict [[[''JonesB'']]] (table_refs w) = d'"
    and rw: "rewrite_data d' [1] [[[''JonesB'']]] [[''c '', '' '' @ [bsl] @ ''citet{JonesB}'']] = Inr rows"
  shows "order_refs ''u.tex'' Last w =
     (None, w\<lparr>table_refs := d',
        files := (files w)(''u.tex_new'' \<mapsto>
          document (readlines second_table) 0 2 (map (join '' & '') rows)
            (table_note_gen [[[''JonesB'']]] d'))\<rparr>)"
proof -
  have sc: "select_cols Last (map split_row (slice (readlines second_table) (0 + 1) 2)) = Inr [1]"
    unfolding u_data by (simp add: select_cols_def)
  have ci: "extract_cites [1] (map split_row (slice (readlines second_table) (0 + 1) 2))
      = Inr [[''JonesB'']]"
    unfolding u_data by (rule u_cites)
  have rw': "rewrite_data (create_ref_dict (split_cites [1] [[''JonesB'']]) (table_refs w)) [1]
        (split_cites [1] [[''JonesB'']])
        (map split_row (slice (readlines second_table) (0 + 1) 2)) = Inr rows"
    unfolding u_data u_refs d by (rule rw)
  show ?thesis
    using order_refs_success [OF f u_start u_stop sc ci rw']
    unfolding u_refs d by simp
qed

text \<open>
  C7. The dictionary is the module's and is not emptied by a call:
  \<open>create_ref_dict\<close> keeps every entry it finds and numbers the new keys from 1
  again. After a run on the first example table, the run on the second table gives
  JonesB the number 2 and lists SmithA in the footnote; the same run in a fresh
  process gives JonesB the number 1 and lists JonesB alone.
\<close>

theorem table_refs_kept_between_calls:
  "create_ref_dict refs d = d @ number_from 1 (fresh (set (map fst d)) (concat (concat refs)))
   \<and> table_refs (snd (order_refs ''t.tex'' Last example_world)) = [(''SmithA'', 1), (''JonesB'', 2)]
   \<and> files (snd (order_refs ''u.tex'' Last example_world)) ''u.tex_new'' =
       Some ([bsl] @ ''startdata'' @ [nl] @ ''c  & 1'' @ [nl] @ [bsl] @ ''enddata'' @ [nl] @ [nl]
             @ [bsl] @ ''tablenotetext{}{{'' @ [bsl] @ ''bf References.} (1) '' @ [bsl]
             @ ''citet{JonesB}}'' @ [nl])
   \<and> files (snd (order_refs ''u.tex'' Last (snd (order_refs ''t.tex'' Last example_world)))) ''u.tex_new'' =
       Some ([bsl] @ ''startdata'' @ [nl] @ ''c  & 2'' @ [nl] @ [bsl] @ ''enddata'' @ [nl] @ [nl]
             @ [bsl] @ ''tablenotetext{}{{'' @ [bsl] @ ''bf References.} (1) '' @ [bsl]
             @ ''citet{SmithA}, (2) '' @ [bsl] @ ''citet{JonesB}}'' @ [nl])"
proof (intro conjI)
  show "create_ref_dict refs d = d @ number_from 1 (fresh (set (map fst d)) (concat (concat refs)))"
    by (simp add: create_ref_dict_def foldl_outer add_items_fresh)
  show "table_refs (snd (order_refs ''t.tex'' Last example_world)) = [(''SmithA'', 1), (''JonesB'', 2)]"
    by (simp add: ex_order_refs)
  have f0: "files example_world ''u.tex'' = Some second_table" by (simp add: example_world_def)
  have d0: "create_ref_dict [[[''JonesB'']]] (table_refs example_world) = [(''JonesB'', 1)]"
    by (simp add: example_world_def u_dict_fresh)
  show "files (snd (order_refs ''u.tex'' Last example_world)) ''u.tex_new'' =
       Some ([bsl] @ ''startdata'' @ [nl] @ ''c  & 1'' @ [nl] @ [bsl] @ ''enddata'' @ [nl] @ [nl]
             @ [bsl] @ ''tablenotetext{}{{'' @ [bsl] @ ''bf References.} (1) '' @ [bsl]
             @ ''citet{JonesB}}'' @ [nl])"
    unfolding u_order_refs [OF f0 d0 u_rewrite_fresh]
    by (simp add: document_def u_lines table_note_gen_def note_entry_def rstrip_chars_def str_def
        digits.simps digit_char_def)
  let ?w1 = "snd (order_refs ''t.tex'' Last example_world)"
  have f1: "files ?w1 ''u.tex'' = Some second_table"
    unfolding ex_order_refs by (simp add: example_world_def)
  have d1: "create_ref_dict [[[''JonesB'']]] (table_refs ?w1) = [(''SmithA'', 1), (''JonesB'', 2)]"
    by (simp add: ex_order_refs u_dict_reused)
  show "files (snd (order_refs ''u.tex'' Last ?w1)) ''u.tex_new'' =
       Some ([bsl] @ ''startdata'' @ [nl] @ ''c  & 2'' @ [nl] @ [bsl] @ ''enddata'' @ [nl] @ [nl]
             @ [bsl] @ ''tablenotetext{}{{'' @ [bsl] @ ''bf References.} (1) '' @ [bsl]
             @ ''citet{SmithA}, (2) '' @ [bsl] @ ''citet{JonesB}}'' @ [nl])"
    unfolding u_order_refs [OF f1 d1 u_rewrite_reused]
    by (simp add: document_def u_lines table_note_gen_def note_entry_def rstrip_chars_def str_def
        digits.simps digit_char_def)
qed

subsection \<open>The rewritten table\<close>

lemma py_index_field_pos:
  "py_index x c = (if in_range x c then Inr (field_pos x c) else Inl IndexError)"
  by (auto simp: py_index_def field_pos_def in_range_def Let_def)

lemma cite_of_between:
  "CHR ''{'' \<in> set s \<Longrightarrow> CHR ''}'' \<in> set s \<Longrightarrow> cite_of s = Inr (between_braces s)"
  using first_pos_less [of "CHR ''}''" s]
  by (simp add: cite_of_def index_of_first_pos slice_nth between_braces_def)

lemma field_cite_ok:
  "designated_ok col x \<Longrightarrow> c \<in> set col \<Longrightarrow>
   field_cite x c = Inr (between_braces (x ! field_pos x c))"
  by (simp add: designated_ok_def field_cite_def py_index_field_pos cite_of_between)

lemma field_cite_not_ok:
  assumes "\<not> designated_ok col x"
  shows "\<exists>c \<in> set col. \<exists>e. field_cite x c = Inl e"
proof -
  from assms obtain c where c: "c \<in> set col"
    and bad: "\<not> (in_range x c
        \<and> CHR ''{'' \<in> set (x ! field_pos x c)
        \<and> CHR ''}'' \<in> set (x ! field_pos x c))"
    unfolding designated_ok_def by blast
  have "\<exists>e. field_cite x c = Inl e"
  proof (cases "in_range x c")
    case False
    then show ?thesis by (simp add: field_cite_def py_index_field_pos)
  next
    case True
    then have "CHR ''{'' \<notin> set (x ! field_pos x c) \<or> CHR ''}'' \<notin> set (x ! field_pos x c)"
      using bad by blast
    then have "cite_of (x ! field_pos x c) = Inl ValueError"
      by (auto simp: cite_of_def index_of_first_pos)
    then show ?thesis using True by (simp add: field_cite_def py_index_field_pos)
  qed
  then show ?thesis using c by blast
qed

lemma try_map_all:
  "(\<And>x. x \<in> set xs \<Longrightarrow> g x = Inr (h x)) \<Longrightarrow> try_map g xs = Inr (map h xs)"
  by (induction xs) simp_all

lemma extract_cites_ok:
  assumes "\<forall>x \<in> set data. designated_ok col x"
  shows "extract_cites col data =
      Inr (map (\<lambda>x. map (\<lambda>c. between_braces (x ! field_pos x c)) col) data)"
  unfolding extract_cites_def
proof (rule try_map_all)
  fix x assume "x \<in> set data"
  then have ok: "designated_ok col x" using assms by simp
  show "try_map (field_cite x) col = Inr (map (\<lambda>c. between_braces (x ! field_pos x c)) col)"
    by (rule try_map_all) (rule field_cite_ok [OF ok])
qed

lemma extract_cites_not_ok:
  assumes "\<not> (\<forall>x \<in> set data. designated_ok col x)"
  shows "\<exists>e. extract_cites col data = Inl e"
proof -
  from assms obtain x where x: "x \<in> set data" and "\<not> designated_ok col x" by blast
  from field_cite_not_ok [OF this(2)] obtain c e where c: "c \<in> set col" and e: "field_cite x c = Inl e"
    by blast
  from try_map_fails [of c col "field_cite x" e, OF c e]
  obtain e' where e': "try_map (field_cite x) col = Inl e'" by blast
  from try_map_fails [of x data "\<lambda>x. try_map (field_cite x) col" e', OF x e']
  show ?thesis unfolding extract_cites_def .
qed

lemma map_nth_map: "map (\<lambda>i. h (map g xs ! i)) [0..<length xs] = map (\<lambda>x. h (g x)) xs"
  by (rule nth_equalityI) simp_all

lemma split_cites_keys:
  "split_cites col (map (\<lambda>x. map (\<lambda>c. between_braces (x ! field_pos x c)) col) data)
     = table_keys col data"
  by (simp add: split_cites_def table_keys_def cell_keys_def map_nth_map)

lemma keys_present:
  "r \<in> set (concat (concat refs)) \<Longrightarrow> has_key (create_ref_dict refs d0) r"
  by (auto simp: has_key_def create_ref_dict_def foldl_outer add_items_fresh fst_number_from set_fresh)

lemma rewrite_cell_text:
  "\<forall>r \<in> set keys. has_key d r \<Longrightarrow> rewrite_cell d keys s = Inr (cell_text d keys s)"
  by (simp add: rewrite_cell_def replace_refs_fold sort_numbers_def strip_macros_def cell_text_def)

lemma field_pos_length: "length r = length x \<Longrightarrow> field_pos r c = field_pos x c"
  by (simp add: field_pos_def)

lemma in_range_length: "length r = length x \<Longrightarrow> in_range r c = in_range x c"
  by (simp add: in_range_def)

lemma length_foldl_update:
  "length (foldl (\<lambda>r c. r[p c := g c r]) x cs) = length x"
  by (induction cs arbitrary: x) simp_all

lemma rewrite_row_fold:
  assumes "length r = length x"
    and "\<forall>j \<in> set js. in_range x (col ! j)"
    and "\<forall>j \<in> set js. \<forall>k \<in> set (rs ! j). has_key d k"
  shows "rewrite_row d col rs js r =
      Inr (foldl (\<lambda>r j. r[field_pos x (col ! j) := cell_text d (rs ! j) (r ! field_pos x (col ! j))]) r js)"
  using assms
proof (induction js arbitrary: r)
  case Nil
  then show ?case by simp
next
  case (Cons j js)
  have "in_range r (col ! j)"
    using Cons.prems(2) in_range_length [OF Cons.prems(1), of "col ! j"] by simp
  then have p: "py_index r (col ! j) = Inr (field_pos x (col ! j))"
    using field_pos_length [OF Cons.prems(1), of "col ! j"] by (simp add: py_index_field_pos)
  have c: "rewrite_cell d (rs ! j) (r ! field_pos x (col ! j))
      = Inr (cell_text d (rs ! j) (r ! field_pos x (col ! j)))"
    using Cons.prems(3) by (simp add: rewrite_cell_text)
  let ?r = "r[field_pos x (col ! j) := cell_text d (rs ! j) (r ! field_pos x (col ! j))]"
  have "length ?r = length x" using Cons.prems(1) by simp
  from Cons.IH [OF this] Cons.prems(2,3) show ?case by (simp add: p c)
qed

lemma foldl_nth_upt:
  "foldl (\<lambda>r j. g r (cs ! j)) r [0..<length cs] = foldl g r cs"
proof -
  have "foldl g r (map ((!) cs) [0..<length cs]) = foldl (\<lambda>r j. g r (cs ! j)) r [0..<length cs]"
    by (simp add: foldl_map)
  then show ?thesis by (simp add: map_nth)
qed

lemma rewrite_row_rewritten:
  assumes ok: "designated_ok col x"
    and keys: "\<forall>c \<in> set col. \<forall>k \<in> set (cell_keys (x ! field_pos x c)). has_key d k"
  shows "rewrite_row d col (map (\<lambda>c. cell_keys (x ! field_pos x c)) col) [0..<length col] x
      = Inr (rewritten_row d col x)"
proof -
  let ?rs = "map (\<lambda>c. cell_keys (x ! field_pos x c)) col"
  have a: "\<forall>j \<in> set [0..<length col]. in_range x (col ! j)"
    using ok by (simp add: designated_ok_def)
  have b: "\<forall>j \<in> set [0..<length col]. \<forall>k \<in> set (?rs ! j). has_key d k"
  proof (intro ballI)
    fix j k assume j: "j \<in> set [0..<length col]" and k: "k \<in> set (?rs ! j)"
    then have "col ! j \<in> set col" and "k \<in> set (cell_keys (x ! field_pos x (col ! j)))" by simp_all
    then show "has_key d k" using keys by blast
  qed
  have "foldl (\<lambda>r j. r[field_pos x (col ! j) := cell_text d (?rs ! j) (r ! field_pos x (col ! j))]) x
          [0..<length col]
      = foldl (\<lambda>r j. r[field_pos x (col ! j) :=
            cell_text d (cell_keys (x ! field_pos x (col ! j))) (r ! field_pos x (col ! j))]) x
          [0..<length col]"
    by (rule foldl_cong) simp_all
  also have "\<dots> = rewritten_row d col x"
    unfolding rewritten_row_def
    by (rule foldl_nth_upt [of "\<lambda>r c. r[field_pos x c := cell_text d (cell_keys (x ! field_pos x c)) (r ! field_pos x c)]"])
  finally show ?thesis
    using rewrite_row_fold [OF refl a b] by simp
qed

lemma rewrite_data_rewritten:
  assumes ok: "\<forall>x \<in> set data. designated_ok col x"
  shows "rewrite_data (create_ref_dict (table_keys col data) d0) col (table_keys col data) data
      = Inr (map (rewritten_row (create_ref_dict (table_keys col data) d0) col) data)"
proof -
  let ?d = "create_ref_dict (table_keys col data) d0"
  have each: "rewrite_row ?d col (table_keys col data ! i) [0..<length col] (data ! i)
      = Inr (rewritten_row ?d col (data ! i))" if i: "i \<in> set [0..<length data]" for i
  proof -
    have il: "i < length data" using i by simp
    then have x: "data ! i \<in> set data" by simp
    have tk: "table_keys col data ! i = map (\<lambda>c. cell_keys (data ! i ! field_pos (data ! i) c)) col"
      using il by (simp add: table_keys_def)
    have keys: "\<forall>c \<in> set col. \<forall>k \<in> set (cell_keys (data ! i ! field_pos (data ! i) c)). has_key ?d k"
    proof (intro ballI)
      fix c k assume c: "c \<in> set col" and k: "k \<in> set (cell_keys (data ! i ! field_pos (data ! i) c))"
      have "cell_keys (data ! i ! field_pos (data ! i) c) \<in> set (table_keys col data ! i)"
        using c by (simp add: tk)
      moreover have "table_keys col data ! i \<in> set (table_keys col data)"
        by (rule nth_mem) (simp add: table_keys_def il)
      ultimately have "k \<in> set (concat (concat (table_keys col data)))"
        using k by auto
      then show "has_key ?d k" by (rule keys_present)
    qed
    show ?thesis unfolding tk using ok x keys by (intro rewrite_row_rewritten) auto
  qed
  have "rewrite_data ?d col (table_keys col data) data
      = Inr (map (\<lambda>i. rewritten_row ?d col (data ! i)) [0..<length data])"
    unfolding rewrite_data_def by (rule try_map_all) (rule each)
  also have "map (\<lambda>i. rewritten_row ?d col (data ! i)) [0..<length data]
      = map (rewritten_row ?d col) data"
    by (rule nth_equalityI) simp_all
  finally show ?thesis .
qed

lemma table_note_gen_refs: "table_note_gen refs d = table_note_gen [] d"
  by (simp add: table_note_gen_def)

lemma order_refs_exact:
  assumes "files w f = Some content"
    and "index_of startdata (readlines content) = Inr start"
    and "index_of enddata (readlines content) = Inr stop"
    and "select_cols cols (map split_row (slice (readlines content) (start + 1) stop)) = Inr col"
    and "\<forall>x \<in> set (map split_row (slice (readlines content) (start + 1) stop)). designated_ok col x"
  shows "order_refs f cols w =
    (None,
     w\<lparr>table_refs :=
          create_ref_dict (table_keys col (map split_row (slice (readlines content) (start + 1) stop)))
            (table_refs w),
       files := (files w)(f @ ''_new'' \<mapsto>
         document (readlines content) start stop
           (map (join '' & '')
              (map (rewritten_row
                      (create_ref_dict
                         (table_keys col (map split_row (slice (readlines content) (start + 1) stop)))
                         (table_refs w)) col)
                 (map split_row (slice (readlines content) (start + 1) stop))))
           (table_note_gen []
              (create_ref_dict
                 (table_keys col (map split_row (slice (readlines content) (start + 1) stop)))
                 (table_refs w))))\<rparr>)"
proof -
  let ?data = "map split_row (slice (readlines content) (start + 1) stop)"
  let ?cites = "map (\<lambda>x. map (\<lambda>c. between_braces (x ! field_pos x c)) col) ?data"
  have ci: "extract_cites col ?data = Inr ?cites"
    using assms(5) by (rule extract_cites_ok)
  have sk: "split_cites col ?cites = table_keys col ?data" by (rule split_cites_keys)
  have rw: "rewrite_data (create_ref_dict (split_cites col ?cites) (table_refs w)) col
      (split_cites col ?cites) ?data
      = Inr (map (rewritten_row (create_ref_dict (table_keys col ?data) (table_refs w)) col) ?data)"
    unfolding sk using assms(5) by (rule rewrite_data_rewritten)
  show ?thesis
    using order_refs_success [OF assms(1-4) ci rw]
    unfolding sk table_note_gen_refs [of "table_keys col ?data"] .
qed

lemma order_refs_not_designated:
  assumes "files w f = Some content"
    and "index_of startdata (readlines content) = Inr start"
    and "index_of enddata (readlines content) = Inr stop"
    and "select_cols cols (map split_row (slice (readlines content) (start + 1) stop)) = Inr col"
    and "\<not> (\<forall>x \<in> set (map split_row (slice (readlines content) (start + 1) stop)). designated_ok col x)"
  shows "\<exists>e. order_refs f cols w = (Some e, w)"
proof -
  from extract_cites_not_ok [OF assms(5)] obtain e
    where "extract_cites col (map split_row (slice (readlines content) (start + 1) stop)) = Inl e"
    by blast
  then show ?thesis using assms(1-4) by (simp add: order_refs_def)
qed




lemma order_refs_exact_named:
  assumes "files w f = Some content"
    and "table = readlines content"
    and "index_of startdata table = Inr start"
    and "index_of enddata table = Inr stop"
    and "data = map split_row (slice table (start + 1) stop)"
    and "select_cols cols data = Inr col"
    and "\<forall>x \<in> set data. designated_ok col x"
    and "d = create_ref_dict (table_keys col data) (table_refs w)"
  shows "order_refs f cols w =
    (None, w\<lparr>table_refs := d,
              files := (files w)(f @ ''_new'' \<mapsto>
                document table start stop (map (join '' & '') (map (rewritten_row d col) data))
                  (table_note_gen [] d))\<rparr>)"
  using order_refs_exact [of w f content start stop cols col] assms by simp

lemma order_refs_None_cases:
  assumes "order_refs f cols w = (None, w')"
  shows "\<exists>content start stop col.
      files w f = Some content
    \<and> index_of startdata (readlines content) = Inr start
    \<and> index_of enddata (readlines content) = Inr stop
    \<and> select_cols cols (map split_row (slice (readlines content) (start + 1) stop)) = Inr col
    \<and> (\<forall>x \<in> set (map split_row (slice (readlines content) (start + 1) stop)). designated_ok col x)"
proof (cases "files w f")
  case None
  then show ?thesis using assms by (simp add: order_refs_def)
next
  case (Some content)
  note c = Some
  show ?thesis
  proof (cases "index_of startdata (readlines content)")
    case (Inl e)
    then show ?thesis using assms c by (simp add: order_refs_def)
  next
    case (Inr start)
    note s = Inr
    show ?thesis
    proof (cases "index_of enddata (readlines content)")
      case (Inl e)
      then show ?thesis using assms c s by (simp add: order_refs_def)
    next
      case (Inr stop)
      note e = Inr
      let ?data = "map split_row (slice (readlines content) (start + 1) stop)"
      show ?thesis
      proof (cases "select_cols cols ?data")
        case (Inl x)
        then show ?thesis using assms c s e by (simp add: order_refs_def)
      next
        case (Inr col)
        note sc = Inr
        have ok: "\<forall>x \<in> set ?data. designated_ok col x"
        proof (rule ccontr)
          assume "\<not> (\<forall>x \<in> set ?data. designated_ok col x)"
          from order_refs_not_designated [OF c s e sc this] assms show False by simp
        qed
        show ?thesis using c s e sc ok by blast
      qed
    qed
  qed
qed

lemma ex_keys: "table_keys [1]
    [[''a '', '' '' @ [bsl] @ ''citet{SmithA} ''], [''b '', '' '' @ [bsl] @ ''citet{JonesB,SmithA}'']]
  = [[[''SmithA'']], [[''JonesB'', ''SmithA'']]]"
  by (simp add: table_keys_def cell_keys_def between_braces_def first_pos_def field_pos_def)

lemma ex_ok: "\<forall>x \<in> set [[''a '', '' '' @ [bsl] @ ''citet{SmithA} ''],
      [''b '', '' '' @ [bsl] @ ''citet{JonesB,SmithA}'']]. designated_ok [1] x"
  by (simp add: designated_ok_def in_range_def field_pos_def)

lemma ex_rewritten: "map (rewritten_row [(''SmithA'', 1), (''JonesB'', 2)] [1])
    [[''a '', '' '' @ [bsl] @ ''citet{SmithA} ''], [''b '', '' '' @ [bsl] @ ''citet{JonesB,SmithA}'']]
  = [[''a '', ''1''], [''b '', ''1, 2'']]"
  by (simp add: rewritten_row_def cell_text_def cell_keys_def between_braces_def first_pos_def
      field_pos_def replace_def str_def digits.simps digit_char_def rstrip_def lstrip_def
      rstrip_chars_def lstrip_chars_def whitespace_def)

lemma y_lines: "readlines empty_table = [[bsl] @ ''startdata'' @ [nl], [bsl] @ ''enddata'' @ [nl]]"
  by (simp add: empty_table_def startdata_def enddata_def)

lemma y_start: "index_of startdata (readlines empty_table) = Inr 0"
  by (simp add: y_lines startdata_def)

lemma y_stop: "index_of enddata (readlines empty_table) = Inr 1"
  by (simp add: y_lines enddata_def)

lemma y_data: "map split_row (slice (readlines empty_table) (0 + 1) 1) = []"
  by (simp add: y_lines slice_def)



subsection \<open>The output document of a run\<close>

text \<open>
  C4, as the code has it. For marker positions inside the table, \<open>write_to_file\<close>
  creates the file \<^verbatim>\<open><f>_new\<close> with exactly: the lines up to and including the start
  marker; every row it is given, followed by \<^verbatim>\<open> \\\<close> and a line feed when it is not
  the last and by a line feed when it is; the end marker line followed by one empty
  line; the footnote line; the lines after the end marker. A run of \<open>order_refs\<close>
  succeeds exactly when the file and the two markers exist, a column is selected and
  every designated field exists and has both braces; it then writes this document,
  its rows being the rewritten rows with their fields joined with \<^verbatim>\<open> & \<close> (the
  fields were split on \<^verbatim>\<open>&\<close> alone, so \<^verbatim>\<open>a & b\<close> comes back as \<^verbatim>\<open>a  &  b\<close>), and
  sets the dictionary. The lines of a file, put together, are the file, so the text
  before the rows and the text after the footnote are the bytes of the input.
\<close>

theorem output_document:
  "(start < length table \<and> stop < length table \<longrightarrow>
      write_to_file f table rows note start stop w =
        (None, w\<lparr>files := (files w)(f @ ''_new'' \<mapsto>
           concat (take (start + 1) table) @ rows_text rows @ table ! stop @ [nl] @ note @ [nl]
             @ concat (drop (stop + 1) table))\<rparr>))
   \<and> (files w f = Some content
        \<and> table = readlines content
        \<and> index_of startdata table = Inr start
        \<and> index_of enddata table = Inr stop
        \<and> data = map split_row (slice table (start + 1) stop)
        \<and> select_cols cols data = Inr col
        \<and> (\<forall>x \<in> set data. designated_ok col x)
        \<and> d = create_ref_dict (table_keys col data) (table_refs w)
      \<longrightarrow> order_refs f cols w =
            (None, w\<lparr>table_refs := d,
               files := (files w)(f @ ''_new'' \<mapsto>
                 concat (take (start + 1) table)
                 @ rows_text (map (join '' & '') (map (rewritten_row d col) data))
                 @ enddata @ [nl] @ table_note_gen [] d @ [nl]
                 @ concat (drop (stop + 1) table))\<rparr>))
   \<and> (order_refs f cols w = (None, w') \<longrightarrow>
        (\<exists>content table start stop data col d.
            files w f = Some content
          \<and> table = readlines content
          \<and> index_of startdata table = Inr start
          \<and> index_of enddata table = Inr stop
          \<and> data = map split_row (slice table (start + 1) stop)
          \<and> select_cols cols data = Inr col
          \<and> (\<forall>x \<in> set data. designated_ok col x)
          \<and> d = create_ref_dict (table_keys col data) (table_refs w)
          \<and> w' = w\<lparr>table_refs := d,
               files := (files w)(f @ ''_new'' \<mapsto>
                 concat (take (start + 1) table)
                 @ rows_text (map (join '' & '') (map (rewritten_row d col) data))
                 @ enddata @ [nl] @ table_note_gen [] d @ [nl]
                 @ concat (drop (stop + 1) table))\<rparr>))
   \<and> rows_text rows =
        concat (map (\<lambda>x. x @ '' '' @ [bsl, bsl] @ [nl]) (butlast rows))
          @ (if rows = [] then [] else last rows @ [nl])
   \<and> concat (readlines text) = text
   \<and> join '' & '' (split_row (''a & b '' @ [bsl, bsl] @ [nl])) = ''a  &  b ''"
proof (intro conjI impI)
  assume "start < length table \<and> stop < length table"
  then show "write_to_file f table rows note start stop w =
        (None, w\<lparr>files := (files w)(f @ ''_new'' \<mapsto>
           concat (take (start + 1) table) @ rows_text rows @ table ! stop @ [nl] @ note @ [nl]
             @ concat (drop (stop + 1) table))\<rparr>)"
    by (simp add: write_to_file_document document_def)
next
  assume h: "files w f = Some content
        \<and> table = readlines content
        \<and> index_of startdata table = Inr start
        \<and> index_of enddata table = Inr stop
        \<and> data = map split_row (slice table (start + 1) stop)
        \<and> select_cols cols data = Inr col
        \<and> (\<forall>x \<in> set data. designated_ok col x)
        \<and> d = create_ref_dict (table_keys col data) (table_refs w)"
  then have "index_of enddata table = Inr stop" by blast
  then have e: "table ! stop = enddata" by (rule index_of_nth)
  have "order_refs f cols w =
    (None, w\<lparr>table_refs := d,
              files := (files w)(f @ ''_new'' \<mapsto>
                document table start stop (map (join '' & '') (map (rewritten_row d col) data))
                  (table_note_gen [] d))\<rparr>)"
    using h by (intro order_refs_exact_named [of w f content]) blast+
  then show "order_refs f cols w =
            (None, w\<lparr>table_refs := d,
               files := (files w)(f @ ''_new'' \<mapsto>
                 concat (take (start + 1) table)
                 @ rows_text (map (join '' & '') (map (rewritten_row d col) data))
                 @ enddata @ [nl] @ table_note_gen [] d @ [nl]
                 @ concat (drop (stop + 1) table))\<rparr>)"
    by (simp add: document_def e)
next
  assume r: "order_refs f cols w = (None, w')"
  from order_refs_None_cases [OF r] obtain content start stop col where
    c: "files w f = Some content"
    and s: "index_of startdata (readlines content) = Inr start"
    and e: "index_of enddata (readlines content) = Inr stop"
    and sc: "select_cols cols (map split_row (slice (readlines content) (start + 1) stop)) = Inr col"
    and ok: "\<forall>x \<in> set (map split_row (slice (readlines content) (start + 1) stop)). designated_ok col x"
    by blast
  let ?table = "readlines content"
  let ?data = "map split_row (slice ?table (start + 1) stop)"
  let ?d = "create_ref_dict (table_keys col ?data) (table_refs w)"
  have en: "?table ! stop = enddata" using e by (rule index_of_nth)
  have "order_refs f cols w =
    (None, w\<lparr>table_refs := ?d,
              files := (files w)(f @ ''_new'' \<mapsto>
                document ?table start stop (map (join '' & '') (map (rewritten_row ?d col) ?data))
                  (table_note_gen [] ?d))\<rparr>)"
    by (rule order_refs_exact_named [OF c refl s e refl sc ok refl])
  then have w': "w' = w\<lparr>table_refs := ?d,
               files := (files w)(f @ ''_new'' \<mapsto>
                 concat (take (start + 1) ?table)
                 @ rows_text (map (join '' & '') (map (rewritten_row ?d col) ?data))
                 @ enddata @ [nl] @ table_note_gen [] ?d @ [nl]
                 @ concat (drop (stop + 1) ?table))\<rparr>"
    using r by (simp add: document_def en)
  show "\<exists>content table start stop data col d.
            files w f = Some content
          \<and> table = readlines content
          \<and> index_of startdata table = Inr start
          \<and> index_of enddata table = Inr stop
          \<and> data = map split_row (slice table (start + 1) stop)
          \<and> select_cols cols data = Inr col
          \<and> (\<forall>x \<in> set data. designated_ok col x)
          \<and> d = create_ref_dict (table_keys col data) (table_refs w)
          \<and> w' = w\<lparr>table_refs := d,
               files := (files w)(f @ ''_new'' \<mapsto>
                 concat (take (start + 1) table)
                 @ rows_text (map (join '' & '') (map (rewritten_row d col) data))
                 @ enddata @ [nl] @ table_note_gen [] d @ [nl]
                 @ concat (drop (stop + 1) table))\<rparr>"
    using c s e sc ok w' by blast
next
  show "rows_text rows =
        concat (map (\<lambda>x. x @ '' '' @ [bsl, bsl] @ [nl]) (butlast rows))
          @ (if rows = [] then [] else last rows @ [nl])"
    by (rule rows_text_butlast)
  show "concat (readlines text) = text" by (rule concat_readlines)
  show "join '' & '' (split_row (''a & b '' @ [bsl, bsl] @ [nl])) = ''a  &  b ''"
    by (simp add: split_row_def rstrip_def rstrip_chars_def whitespace_def)
qed

theorem output_document_witness:
  "write_to_file ''f'' [''a'', ''b''] [''r''] ''n'' 0 1 example_world =
     (None, example_world\<lparr>files := (files example_world)(''f_new'' \<mapsto>
        ''ar'' @ [nl] @ ''b'' @ [nl] @ ''n'' @ [nl])\<rparr>)
   \<and> order_refs ''t.tex'' Last example_world =
       (None, example_world\<lparr>table_refs := [(''SmithA'', 1), (''JonesB'', 2)],
          files := (files example_world)(''t.tex_new'' \<mapsto>
            concat (take (1 + 1) (readlines example_table))
            @ rows_text [''a  & 1'', ''b  & 1, 2'']
            @ enddata @ [nl] @ table_note_gen [] [(''SmithA'', 1), (''JonesB'', 2)] @ [nl]
            @ concat (drop (4 + 1) (readlines example_table)))\<rparr>)
   \<and> (\<exists>content table start stop data col d.
          files example_world ''t.tex'' = Some content
        \<and> table = readlines content
        \<and> index_of startdata table = Inr start
        \<and> index_of enddata table = Inr stop
        \<and> data = map split_row (slice table (start + 1) stop)
        \<and> select_cols Last data = Inr col
        \<and> (\<forall>x \<in> set data. designated_ok col x)
        \<and> d = create_ref_dict (table_keys col data) (table_refs example_world)
        \<and> snd (order_refs ''t.tex'' Last example_world) = example_world\<lparr>table_refs := d,
             files := (files example_world)(''t.tex'' @ ''_new'' \<mapsto>
               concat (take (start + 1) table)
               @ rows_text (map (join '' & '') (map (rewritten_row d col) data))
               @ enddata @ [nl] @ table_note_gen [] d @ [nl]
               @ concat (drop (stop + 1) table))\<rparr>)"
proof (intro conjI)
  have "(0::nat) < length [''a'', ''b''] \<and> (1::nat) < length [''a'', ''b'']" by simp
  from mp [OF conjunct1 [OF output_document] this]
  show "write_to_file ''f'' [''a'', ''b''] [''r''] ''n'' 0 1 example_world =
     (None, example_world\<lparr>files := (files example_world)(''f_new'' \<mapsto>
        ''ar'' @ [nl] @ ''b'' @ [nl] @ ''n'' @ [nl])\<rparr>)"
    by simp
next
  let ?data = "[[''a '', '' '' @ [bsl] @ ''citet{SmithA} ''],
      [''b '', '' '' @ [bsl] @ ''citet{JonesB,SmithA}'']]"
  let ?d = "[(''SmithA'', 1), (''JonesB'', 2)] :: ref_dict"
  note t = output_document [where w = example_world and f = "''t.tex''" and content = example_table
      and table = "readlines example_table" and start = 1 and stop = 4 and data = ?data
      and cols = Last and col = "[1]" and d = ?d]
  have f: "files example_world ''t.tex'' = Some example_table" by (simp add: example_world_def)
  have sc: "select_cols Last ?data = Inr [1]" by (simp add: select_cols_def)
  have d: "?d = create_ref_dict (table_keys [1] ?data) (table_refs example_world)"
    unfolding ex_keys by (simp add: example_world_def ex_dict)
  have h: "files example_world ''t.tex'' = Some example_table
        \<and> readlines example_table = readlines example_table
        \<and> index_of startdata (readlines example_table) = Inr 1
        \<and> index_of enddata (readlines example_table) = Inr 4
        \<and> ?data = map split_row (slice (readlines example_table) (1 + 1) 4)
        \<and> select_cols Last ?data = Inr [1]
        \<and> (\<forall>x \<in> set ?data. designated_ok [1] x)
        \<and> ?d = create_ref_dict (table_keys [1] ?data) (table_refs example_world)"
    by (intro conjI) (rule f refl ex_start ex_stop ex_data [symmetric] sc ex_ok d)+
  have rows: "map (join '' & '') (map (rewritten_row ?d [1]) ?data) = [''a  & 1'', ''b  & 1, 2'']"
    unfolding ex_rewritten by simp
  show "order_refs ''t.tex'' Last example_world =
       (None, example_world\<lparr>table_refs := [(''SmithA'', 1), (''JonesB'', 2)],
          files := (files example_world)(''t.tex_new'' \<mapsto>
            concat (take (1 + 1) (readlines example_table))
            @ rows_text [''a  & 1'', ''b  & 1, 2'']
            @ enddata @ [nl] @ table_note_gen [] [(''SmithA'', 1), (''JonesB'', 2)] @ [nl]
            @ concat (drop (4 + 1) (readlines example_table)))\<rparr>)"
    using mp [OF conjunct1 [OF conjunct2 [OF t]] h] unfolding rows by simp
next
  have "order_refs ''t.tex'' Last example_world = (None, snd (order_refs ''t.tex'' Last example_world))"
    by (simp add: ex_order_refs)
  from mp [OF conjunct1 [OF conjunct2 [OF conjunct2 [OF output_document]]] this]
  show "\<exists>content table start stop data col d.
          files example_world ''t.tex'' = Some content
        \<and> table = readlines content
        \<and> index_of startdata table = Inr start
        \<and> index_of enddata table = Inr stop
        \<and> data = map split_row (slice table (start + 1) stop)
        \<and> select_cols Last data = Inr col
        \<and> (\<forall>x \<in> set data. designated_ok col x)
        \<and> d = create_ref_dict (table_keys col data) (table_refs example_world)
        \<and> snd (order_refs ''t.tex'' Last example_world) = example_world\<lparr>table_refs := d,
             files := (files example_world)(''t.tex'' @ ''_new'' \<mapsto>
               concat (take (start + 1) table)
               @ rows_text (map (join '' & '') (map (rewritten_row d col) data))
               @ enddata @ [nl] @ table_note_gen [] d @ [nl]
               @ concat (drop (stop + 1) table))\<rparr>"
    .
qed

subsection \<open>The default column in a run\<close>

lemma split_on_nonempty: "split_on c s \<noteq> []"
  by (induction s) (auto split: list.splits)

lemma split_row_nonempty: "split_row l \<noteq> []"
  by (simp add: split_row_def split_on_nonempty)

lemma field_pos_nonneg: "0 \<le> c \<Longrightarrow> field_pos x c = nat c"
  by (simp add: field_pos_def)

lemma designated_ok_single:
  "0 < n \<Longrightarrow>
   designated_ok [int n - 1] x =
     (n - 1 < length x \<and> CHR ''{'' \<in> set (x ! (n - 1)) \<and> CHR ''}'' \<in> set (x ! (n - 1)))"
  by (auto simp: designated_ok_def in_range_def field_pos_def nat_pred)

lemma table_keys_single:
  "0 < n \<Longrightarrow> table_keys [int n - 1] data = map (\<lambda>x. [cell_keys (x ! (n - 1))]) data"
  by (simp add: table_keys_def field_pos_def nat_pred)

lemma rewritten_row_single:
  "0 < n \<Longrightarrow>
   rewritten_row d [int n - 1] x = x[n - 1 := cell_text d (cell_keys (x ! (n - 1))) (x ! (n - 1))]"
  by (simp add: rewritten_row_def field_pos_def nat_pred)

text \<open>
  C9. Without a column selection the citation columns are the single index
  \<open>len(data[0]) - 1\<close>, taken from the first row: the call does what a call with that
  one column does, and every row is read at that same index. With no row between the
  markers the call raises \<^verbatim>\<open>IndexError\<close>. With rows, when every row has a field at
  that index and the field has both braces, the call succeeds, numbers the keys of
  that field of every row and writes every row with that one field rewritten and the
  others as they were; otherwise it fails and leaves the world as it was.
\<close>

theorem default_column:
  "select_cols Last (row # rows) = Inr [int (length row) - 1]
   \<and> (files w f = Some content \<and> index_of startdata (readlines content) = Inr start
        \<and> index_of enddata (readlines content) = Inr stop
        \<and> map split_row (slice (readlines content) (start + 1) stop) = row # rows
      \<longrightarrow> order_refs f Last w = order_refs f (Cols [int (length row) - 1]) w)
   \<and> (0 < length row \<longrightarrow>
        extract_cites [int (length row) - 1] data =
          try_map (\<lambda>x. if length row \<le> length x
                        then (case cite_of (x ! (length row - 1)) of Inl e \<Rightarrow> Inl e | Inr y \<Rightarrow> Inr [y])
                        else Inl IndexError) data)
   \<and> (files w f = Some content
        \<and> table = readlines content
        \<and> index_of startdata table = Inr start
        \<and> index_of enddata table = Inr stop
        \<and> map split_row (slice table (start + 1) stop) = []
      \<longrightarrow> order_refs f Last w = (Some IndexError, w))
   \<and> (files w f = Some content
        \<and> table = readlines content
        \<and> index_of startdata table = Inr start
        \<and> index_of enddata table = Inr stop
        \<and> map split_row (slice table (start + 1) stop) = row # rows
        \<and> c = length row - 1
        \<and> (\<forall>x \<in> set (row # rows).
              c < length x \<and> CHR ''{'' \<in> set (x ! c) \<and> CHR ''}'' \<in> set (x ! c))
        \<and> d = create_ref_dict (map (\<lambda>x. [cell_keys (x ! c)]) (row # rows)) (table_refs w)
      \<longrightarrow> order_refs f Last w =
            (None, w\<lparr>table_refs := d,
               files := (files w)(f @ ''_new'' \<mapsto>
                 document table start stop
                   (map (join '' & '')
                      (map (\<lambda>x. x[c := cell_text d (cell_keys (x ! c)) (x ! c)]) (row # rows)))
                   (table_note_gen [] d))\<rparr>))
   \<and> (files w f = Some content
        \<and> table = readlines content
        \<and> index_of startdata table = Inr start
        \<and> index_of enddata table = Inr stop
        \<and> map split_row (slice table (start + 1) stop) = row # rows
        \<and> c = length row - 1
        \<and> \<not> (\<forall>x \<in> set (row # rows).
              c < length x \<and> CHR ''{'' \<in> set (x ! c) \<and> CHR ''}'' \<in> set (x ! c))
      \<longrightarrow> (\<exists>e. order_refs f Last w = (Some e, w)))"
proof (intro conjI impI)
  show "select_cols Last (row # rows) = Inr [int (length row) - 1]"
    by (simp add: select_cols_def)
next
  assume "files w f = Some content \<and> index_of startdata (readlines content) = Inr start
        \<and> index_of enddata (readlines content) = Inr stop
        \<and> map split_row (slice (readlines content) (start + 1) stop) = row # rows"
  then show "order_refs f Last w = order_refs f (Cols [int (length row) - 1]) w"
    by (simp add: order_refs_def select_cols_def)
next
  assume r: "0 < length row"
  show "extract_cites [int (length row) - 1] data =
          try_map (\<lambda>x. if length row \<le> length x
                        then (case cite_of (x ! (length row - 1)) of Inl e \<Rightarrow> Inl e | Inr y \<Rightarrow> Inr [y])
                        else Inl IndexError) data"
    unfolding extract_cites_def using field_cite_last [OF r] by simp
next
  assume "files w f = Some content
        \<and> table = readlines content
        \<and> index_of startdata table = Inr start
        \<and> index_of enddata table = Inr stop
        \<and> map split_row (slice table (start + 1) stop) = []"
  then have "files w f = Some content"
    and "index_of startdata (readlines content) = Inr start"
    and "index_of enddata (readlines content) = Inr stop"
    and "map split_row (slice (readlines content) (start + 1) stop) = []"
    by blast+
  then show "order_refs f Last w = (Some IndexError, w)"
    by (simp add: order_refs_def select_cols_def)
next
  assume h: "files w f = Some content
        \<and> table = readlines content
        \<and> index_of startdata table = Inr start
        \<and> index_of enddata table = Inr stop
        \<and> map split_row (slice table (start + 1) stop) = row # rows
        \<and> c = length row - 1
        \<and> (\<forall>x \<in> set (row # rows).
              c < length x \<and> CHR ''{'' \<in> set (x ! c) \<and> CHR ''}'' \<in> set (x ! c))
        \<and> d = create_ref_dict (map (\<lambda>x. [cell_keys (x ! c)]) (row # rows)) (table_refs w)"
  let ?data = "row # rows"
  let ?col = "[int (length row) - 1]"
  from h have "map split_row (slice table (start + 1) stop) = ?data" by blast
  then have dat: "?data = map split_row (slice table (start + 1) stop)" by (rule sym)
  then obtain l where "row = split_row l" by auto
  then have n: "0 < length row" using split_row_nonempty [of l] by simp
  have c: "c = length row - 1" using h by blast
  have sc: "select_cols Last ?data = Inr ?col" by (simp add: select_cols_def)
  have ok: "\<forall>x \<in> set ?data. designated_ok ?col x"
  proof
    fix x assume "x \<in> set ?data"
    then have "c < length x \<and> CHR ''{'' \<in> set (x ! c) \<and> CHR ''}'' \<in> set (x ! c)"
      using h by blast
    then show "designated_ok ?col x"
      unfolding designated_ok_single [OF n] c .
  qed
  have d: "d = create_ref_dict (table_keys ?col ?data) (table_refs w)"
    using h unfolding table_keys_single [OF n] c by blast
  have rr: "map (rewritten_row d ?col) ?data =
      map (\<lambda>x. x[c := cell_text d (cell_keys (x ! c)) (x ! c)]) ?data"
    unfolding c using rewritten_row_single [OF n] by simp
  from h have f: "files w f = Some content" and t: "table = readlines content"
    and s: "index_of startdata table = Inr start" and e: "index_of enddata table = Inr stop"
    by blast+
  show "order_refs f Last w =
            (None, w\<lparr>table_refs := d,
               files := (files w)(f @ ''_new'' \<mapsto>
                 document table start stop
                   (map (join '' & '')
                      (map (\<lambda>x. x[c := cell_text d (cell_keys (x ! c)) (x ! c)]) (row # rows)))
                   (table_note_gen [] d))\<rparr>)"
    using order_refs_exact_named [OF f t s e dat sc ok d] unfolding rr .
next
  assume h: "files w f = Some content
        \<and> table = readlines content
        \<and> index_of startdata table = Inr start
        \<and> index_of enddata table = Inr stop
        \<and> map split_row (slice table (start + 1) stop) = row # rows
        \<and> c = length row - 1
        \<and> \<not> (\<forall>x \<in> set (row # rows).
              c < length x \<and> CHR ''{'' \<in> set (x ! c) \<and> CHR ''}'' \<in> set (x ! c))"
  let ?data = "row # rows"
  let ?col = "[int (length row) - 1]"
  from h have t: "table = readlines content"
    and "map split_row (slice table (start + 1) stop) = ?data" by blast+
  then have dat: "map split_row (slice (readlines content) (start + 1) stop) = ?data" by simp
  then obtain l where "row = split_row l" by auto
  then have n: "0 < length row" using split_row_nonempty [of l] by simp
  have c: "c = length row - 1" using h by blast
  have sc: "select_cols Last (map split_row (slice (readlines content) (start + 1) stop)) = Inr ?col"
    unfolding dat by (simp add: select_cols_def)
  from h have "\<not> (\<forall>x \<in> set ?data.
      c < length x \<and> CHR ''{'' \<in> set (x ! c) \<and> CHR ''}'' \<in> set (x ! c))" by blast
  then have nok: "\<not> (\<forall>x \<in> set (map split_row (slice (readlines content) (start + 1) stop)).
      designated_ok ?col x)"
    unfolding dat designated_ok_single [OF n] c .
  from h have f: "files w f = Some content"
    and "index_of startdata table = Inr start"
    and "index_of enddata table = Inr stop"
    by blast+
  then have s: "index_of startdata (readlines content) = Inr start"
    and e: "index_of enddata (readlines content) = Inr stop"
    unfolding t by simp_all
  show "\<exists>e. order_refs f Last w = (Some e, w)"
    by (rule order_refs_not_designated [OF f s e sc nok])
qed

theorem default_column_witness:
  "order_refs ''t.tex'' Last example_world = order_refs ''t.tex'' (Cols [1]) example_world
   \<and> extract_cites [1] [[''a'', ''{x}''], [''b'']] = Inl IndexError
   \<and> order_refs ''y.tex'' Last empty_world = (Some IndexError, empty_world)
   \<and> order_refs ''t.tex'' Last example_world =
       (None, example_world\<lparr>table_refs := [(''SmithA'', 1), (''JonesB'', 2)],
          files := (files example_world)(''t.tex_new'' \<mapsto>
            document (readlines example_table) 1 4 [''a  & 1'', ''b  & 1, 2'']
              (table_note_gen [] [(''SmithA'', 1), (''JonesB'', 2)]))\<rparr>)
   \<and> (\<exists>e. order_refs ''w.tex'' Last example_world = (Some e, example_world))"
proof (intro conjI)
  let ?row = "[''a '', '' '' @ [bsl] @ ''citet{SmithA} '']"
  let ?rows = "[[''b '', '' '' @ [bsl] @ ''citet{JonesB,SmithA}'']]"
  let ?d = "[(''SmithA'', 1), (''JonesB'', 2)] :: ref_dict"
  note t = default_column [where row = ?row and rows = ?rows and w = example_world
      and f = "''t.tex''" and content = example_table and table = "readlines example_table"
      and start = 1 and stop = 4 and c = 1 and d = ?d
      and data = "[[''a'', ''{x}''], [''b'']]"]
  have f: "files example_world ''t.tex'' = Some example_table" by (simp add: example_world_def)
  have h2: "files example_world ''t.tex'' = Some example_table
      \<and> index_of startdata (readlines example_table) = Inr 1
      \<and> index_of enddata (readlines example_table) = Inr 4
      \<and> map split_row (slice (readlines example_table) (1 + 1) 4) = ?row # ?rows"
    by (intro conjI) (rule f ex_start ex_stop ex_data)+
  have "order_refs ''t.tex'' Last example_world =
      order_refs ''t.tex'' (Cols [int (length ?row) - 1]) example_world"
    by (rule mp [OF conjunct1 [OF conjunct2 [OF t]] h2])
  then show "order_refs ''t.tex'' Last example_world = order_refs ''t.tex'' (Cols [1]) example_world"
    by simp
next
  note u = default_column [where row = "[''a'', ''{x}'']" and data = "[[''a'', ''{x}''], [''b'']]"]
  have "0 < length [''a'', ''{x}'']" by simp
  from mp [OF conjunct1 [OF conjunct2 [OF conjunct2 [OF u]]] this]
  show "extract_cites [1] [[''a'', ''{x}''], [''b'']] = Inl IndexError"
    by (simp add: cite_of_def slice_def)
next
  note y = default_column [where w = empty_world and f = "''y.tex''" and content = empty_table
      and table = "readlines empty_table" and start = 0 and stop = 1]
  have f: "files empty_world ''y.tex'' = Some empty_table" by (simp add: empty_world_def)
  have h4: "files empty_world ''y.tex'' = Some empty_table
      \<and> readlines empty_table = readlines empty_table
      \<and> index_of startdata (readlines empty_table) = Inr 0
      \<and> index_of enddata (readlines empty_table) = Inr 1
      \<and> map split_row (slice (readlines empty_table) (0 + 1) 1) = []"
    by (intro conjI) (rule f refl y_start y_stop y_data)+
  show "order_refs ''y.tex'' Last empty_world = (Some IndexError, empty_world)"
    by (rule mp [OF conjunct1 [OF conjunct2 [OF conjunct2 [OF conjunct2 [OF y]]]] h4])
next
  let ?row = "[''a '', '' '' @ [bsl] @ ''citet{SmithA} '']"
  let ?rows = "[[''b '', '' '' @ [bsl] @ ''citet{JonesB,SmithA}'']]"
  let ?d = "[(''SmithA'', 1), (''JonesB'', 2)] :: ref_dict"
  note t = default_column [where row = ?row and rows = ?rows and w = example_world
      and f = "''t.tex''" and content = example_table and table = "readlines example_table"
      and start = 1 and stop = 4 and c = 1 and d = ?d]
  have f: "files example_world ''t.tex'' = Some example_table" by (simp add: example_world_def)
  have c: "(1::nat) = length ?row - 1" by simp
  have ok: "\<forall>x \<in> set (?row # ?rows).
      1 < length x \<and> CHR ''{'' \<in> set (x ! 1) \<and> CHR ''}'' \<in> set (x ! 1)"
    by simp
  have d: "?d = create_ref_dict (map (\<lambda>x. [cell_keys (x ! 1)]) (?row # ?rows)) (table_refs example_world)"
    by (simp add: cell_keys_def between_braces_def first_pos_def example_world_def
        create_ref_dict_def has_key_def dict_set_def)
  have h5: "files example_world ''t.tex'' = Some example_table
      \<and> readlines example_table = readlines example_table
      \<and> index_of startdata (readlines example_table) = Inr 1
      \<and> index_of enddata (readlines example_table) = Inr 4
      \<and> map split_row (slice (readlines example_table) (1 + 1) 4) = ?row # ?rows
      \<and> 1 = length ?row - 1
      \<and> (\<forall>x \<in> set (?row # ?rows).
            1 < length x \<and> CHR ''{'' \<in> set (x ! 1) \<and> CHR ''}'' \<in> set (x ! 1))
      \<and> ?d = create_ref_dict (map (\<lambda>x. [cell_keys (x ! 1)]) (?row # ?rows)) (table_refs example_world)"
    by (intro conjI) (rule f refl ex_start ex_stop ex_data c ok d)+
  have rows: "map (join '' & '')
      (map (\<lambda>x. x[1 := cell_text ?d (cell_keys (x ! 1)) (x ! 1)]) (?row # ?rows))
      = [''a  & 1'', ''b  & 1, 2'']"
    by (simp add: cell_text_def cell_keys_def between_braces_def first_pos_def
      replace_def str_def digits.simps digit_char_def rstrip_def lstrip_def
      rstrip_chars_def lstrip_chars_def whitespace_def)
  show "order_refs ''t.tex'' Last example_world =
       (None, example_world\<lparr>table_refs := [(''SmithA'', 1), (''JonesB'', 2)],
          files := (files example_world)(''t.tex_new'' \<mapsto>
            document (readlines example_table) 1 4 [''a  & 1'', ''b  & 1, 2'']
              (table_note_gen [] [(''SmithA'', 1), (''JonesB'', 2)]))\<rparr>)"
    using mp [OF conjunct1 [OF conjunct2 [OF conjunct2 [OF conjunct2 [OF conjunct2 [OF t]]]]] h5]
    unfolding rows by simp
next
  let ?row = "[''a '', '' SmithA'']"
  note v = default_column [where row = ?row and rows = "[]" and w = example_world
      and f = "''w.tex''" and content = no_brace_table and table = "readlines no_brace_table"
      and start = 0 and stop = 2 and c = 1]
  have f: "files example_world ''w.tex'' = Some no_brace_table" by (simp add: example_world_def)
  have c: "(1::nat) = length ?row - 1" by simp
  have nok: "\<not> (\<forall>x \<in> set (?row # []).
      1 < length x \<and> CHR ''{'' \<in> set (x ! 1) \<and> CHR ''}'' \<in> set (x ! 1))"
    by simp
  have h6: "files example_world ''w.tex'' = Some no_brace_table
      \<and> readlines no_brace_table = readlines no_brace_table
      \<and> index_of startdata (readlines no_brace_table) = Inr 0
      \<and> index_of enddata (readlines no_brace_table) = Inr 2
      \<and> map split_row (slice (readlines no_brace_table) (0 + 1) 2) = ?row # []
      \<and> 1 = length ?row - 1
      \<and> \<not> (\<forall>x \<in> set (?row # []).
            1 < length x \<and> CHR ''{'' \<in> set (x ! 1) \<and> CHR ''}'' \<in> set (x ! 1))"
    by (intro conjI) (rule f refl w_start w_stop w_data c nok)+
  show "\<exists>e. order_refs ''w.tex'' Last example_world = (Some e, example_world)"
    by (rule mp [OF conjunct2 [OF conjunct2 [OF conjunct2 [OF conjunct2 [OF conjunct2 [OF v]]]]] h6])
qed

subsection \<open>Replacing a key is a replacement in the whole field\<close>










lemma digit_char_in: "n < 10 \<Longrightarrow> digit_char n \<in> set ''0123456789''"
  unfolding digit_char_def by (rule nth_mem) simp

lemma digits_chars: "digits n \<noteq> [] \<and> set (digits n) \<subseteq> set ''0123456789''"
proof (induction n rule: digits.induct)
  case (1 n)
  show ?case
  proof (cases "n < 10")
    case True
    then show ?thesis using digit_char_in [of n] by (simp add: digits.simps [of n])
  next
    case False
    have "n mod 10 < 10" by simp
    from digit_char_in [OF this] 1 False show ?thesis
      by (simp add: digits.simps [of n])
  qed
qed

lemma digits_clean:
  "c \<notin> set ''0123456789'' \<Longrightarrow> c \<notin> set (digits n)"
  using digits_chars [of n] by blast






end
